theory Spec2Isabelle
  imports Complex_Main "HOL-Library.Multiset"
begin

section \<open>Standard-library behaviour the programs rely on\<close>

subsection \<open>Console output\<close>

text \<open>
  \<^verbatim>\<open>cout\<close> is the sequence of bytes written so far. \<^verbatim>\<open>endl\<close> writes a line feed (the
  flush has no effect on the bytes). The source files are UTF-8, so the check mark and the
  cross of the test harness are three bytes each.
\<close>

type_synonym ostream = string

definition endl :: string where
  "endl = [CHR 0x0A]"

definition check_mark :: string where
  "check_mark = [CHR 0xE2, CHR 0x9C, CHR 0x93]"

definition cross_mark :: string where
  "cross_mark = [CHR 0xE2, CHR 0x9C, CHR 0x97]"

text \<open>\<^verbatim>\<open>operator<<\<close> for \<^verbatim>\<open>size_t\<close> and \<^verbatim>\<open>int\<close>: decimal digits, a minus sign when negative.\<close>

fun show_nat :: "nat \<Rightarrow> string" where
  "show_nat n = (if n < 10 then [''0123456789'' ! n]
                 else show_nat (n div 10) @ [''0123456789'' ! (n mod 10)])"

declare show_nat.simps [simp del]

definition show_int :: "int \<Rightarrow> string" where
  "show_int i = (if i < 0 then CHR ''-'' # show_nat (nat (- i)) else show_nat (nat i))"

subsection \<open>double\<close>

text \<open>
  The programs store, compare, multiply, add, subtract and print \<^verbatim>\<open>double\<close> values. The
  arithmetic of the machine is taken as a parameter: \<open>'d\<close> is the type of doubles and the
  record holds the operations the sources use. \<open>d_lit\<close> is the conversion of a decimal
  literal (or of an \<^verbatim>\<open>int\<close>) to a double, \<open>d_greater a b\<close> is \<^verbatim>\<open>a > b\<close> and \<open>d_show\<close> is
  \<^verbatim>\<open>operator<<\<close> at the stream's default formatting. Every statement below holds for
  every such record, IEEE 754 binary64 with its rounding, infinities and NaN included.
\<close>

record 'd double_ops =
  d_lit :: "rat \<Rightarrow> 'd"
  d_mult :: "'d \<Rightarrow> 'd \<Rightarrow> 'd"
  d_plus :: "'d \<Rightarrow> 'd \<Rightarrow> 'd"
  d_minus :: "'d \<Rightarrow> 'd \<Rightarrow> 'd"
  d_greater :: "'d \<Rightarrow> 'd \<Rightarrow> bool"
  d_show :: "'d \<Rightarrow> string"

text \<open>
  One such record, used to run the definitions on concrete inputs: exact rational
  arithmetic. \<open>show_tenths\<close> writes a non-negative number that has at most one decimal
  place the way the stream writes such a double at its default precision of six
  significant digits: the integer part, then the point and the digit when the digit is not
  zero (\<^verbatim>\<open>72.5\<close>, \<^verbatim>\<open>45.2\<close>, \<^verbatim>\<open>3\<close>).
\<close>

definition show_tenths :: "rat \<Rightarrow> string" where
  "show_tenths q =
     (let n = nat \<lfloor>q * 10\<rfloor>
      in show_nat (n div 10) @ (if n mod 10 = 0 then [] else CHR ''.'' # show_nat (n mod 10)))"

definition exact_ops :: "rat double_ops" where
  "exact_ops = \<lparr>d_lit = (\<lambda>q. q), d_mult = (*), d_plus = (+), d_minus = (-),
                 d_greater = (\<lambda>a b. b < a), d_show = show_tenths\<rparr>"

subsection \<open>\<^verbatim>\<open>std::priority_queue\<close>\<close>

text \<open>
  \<^verbatim>\<open>priority_queue<T, vector<T>, Compare>\<close> keeps its elements in a vector \<^verbatim>\<open>c\<close> arranged as a
  binary heap with respect to the comparator: \<^verbatim>\<open>push(x)\<close> is \<^verbatim>\<open>c.push_back(x)\<close> followed by
  \<^verbatim>\<open>push_heap\<close>, \<^verbatim>\<open>pop()\<close> is \<^verbatim>\<open>pop_heap\<close> followed by \<^verbatim>\<open>c.pop_back()\<close>, and \<^verbatim>\<open>top()\<close> is
  \<^verbatim>\<open>c.front()\<close>. \<^verbatim>\<open>push_heap\<close> moves the last element up while its parent compares less;
  \<^verbatim>\<open>pop_heap\<close> exchanges the first and the last element and moves the new first element
  down within the shortened range. The parent of index \<open>i\<close> is \<open>(i - 1) div 2\<close>, its
  children are \<open>2 * i + 1\<close> and \<open>2 * i + 2\<close>.
\<close>

definition swap_at :: "'a list \<Rightarrow> nat \<Rightarrow> nat \<Rightarrow> 'a list" where
  "swap_at xs i j = xs[i := xs ! j, j := xs ! i]"

fun sift_up :: "('a \<Rightarrow> 'a \<Rightarrow> bool) \<Rightarrow> 'a list \<Rightarrow> nat \<Rightarrow> 'a list" where
  "sift_up cmp xs i =
     (if i = 0 then xs
      else (let parent = (i - 1) div 2
            in if cmp (xs ! parent) (xs ! i) then sift_up cmp (swap_at xs parent i) parent
               else xs))"

declare sift_up.simps [simp del]

function sift_down :: "('a \<Rightarrow> 'a \<Rightarrow> bool) \<Rightarrow> 'a list \<Rightarrow> nat \<Rightarrow> nat \<Rightarrow> 'a list" where
  "sift_down cmp xs n i =
     (let l = 2 * i + 1; r = 2 * i + 2
      in if l < n
         then (let c = (if r < n \<and> cmp (xs ! l) (xs ! r) then r else l)
               in if cmp (xs ! i) (xs ! c) then sift_down cmp (swap_at xs i c) n c else xs)
         else xs)"
  by pat_completeness auto
termination
  by (relation "measure (\<lambda>(cmp, xs, n, i). n - i)") (auto split: if_splits)

declare sift_down.simps [simp del]

definition push_heap :: "('a \<Rightarrow> 'a \<Rightarrow> bool) \<Rightarrow> 'a list \<Rightarrow> 'a list" where
  "push_heap cmp xs = (if xs = [] then xs else sift_up cmp xs (length xs - 1))"

definition pop_heap :: "('a \<Rightarrow> 'a \<Rightarrow> bool) \<Rightarrow> 'a list \<Rightarrow> 'a list" where
  "pop_heap cmp xs =
     (if length xs \<le> 1 then xs
      else sift_down cmp (swap_at xs 0 (length xs - 1)) (length xs - 1) 0)"

definition pq_empty :: "'a list \<Rightarrow> bool" where
  "pq_empty c = (c = [])"

text \<open>\<^verbatim>\<open>top()\<close> on an empty queue is undefined behaviour; the program calls it on a
  non-empty queue only.\<close>

definition pq_top :: "'a list \<Rightarrow> 'a" where
  "pq_top c = hd c"

definition pq_push :: "('a \<Rightarrow> 'a \<Rightarrow> bool) \<Rightarrow> 'a \<Rightarrow> 'a list \<Rightarrow> 'a list" where
  "pq_push cmp x c = push_heap cmp (c @ [x])"

definition pq_pop :: "('a \<Rightarrow> 'a \<Rightarrow> bool) \<Rightarrow> 'a list \<Rightarrow> 'a list" where
  "pq_pop cmp c = butlast (pop_heap cmp c)"

text \<open>The heap property of the C++ standard: no element compares greater than its parent.\<close>

definition is_heap :: "('a \<Rightarrow> 'a \<Rightarrow> bool) \<Rightarrow> 'a list \<Rightarrow> bool" where
  "is_heap cmp xs = (\<forall>i<length xs. 0 < i \<longrightarrow> \<not> cmp (xs ! ((i - 1) div 2)) (xs ! i))"

section \<open>The sensor processor (\<^verbatim>\<open>dataprocesingAlgo_sol.cpp\<close>)\<close>

text \<open>
  The file holds the starter text of the exercise (lines 1 to 158) and, after the line
  \<^verbatim>\<open>Lab Solution Files :\<close>, the solution (lines 160 to 460). What follows are the types and the
  member functions of the solution's \<^verbatim>\<open>SensorProcessor\<close> as their bodies are written.
  \<^verbatim>\<open>int\<close> fields are identifiers and priorities: the program stores, compares and prints
  them and does no arithmetic on them, so they are integers here.
\<close>

record 'd SensorReading =
  sensorId :: int
  location :: string
  sensorType :: string
  value' :: 'd

record Alert =
  priority :: int
  message :: string
  alertType :: string

definition AlertComparator :: "Alert \<Rightarrow> Alert \<Rightarrow> bool" where
  "AlertComparator a b = (priority a < priority b)"

text \<open>
  The two \<^verbatim>\<open>unordered_map\<close>s are finite maps and the priority queue is its underlying vector.
  A \<^verbatim>\<open>SensorReading*\<close> handed out by the class is either null or the address of the value
  stored in \<open>sensorData\<close> under a key; the map never moves or erases a stored value, so the
  key identifies the address.
\<close>

record 'd SensorProcessor =
  sensorData :: "int \<rightharpoonup> 'd SensorReading"
  locationIndex :: "string \<rightharpoonup> int list"
  alertQueue :: "Alert list"

datatype SensorReading_ptr = nullptr | node_of int

definition new_SensorProcessor :: "'d SensorProcessor" where
  "new_SensorProcessor = \<lparr>sensorData = Map.empty, locationIndex = Map.empty, alertQueue = []\<rparr>"

definition deref :: "'d SensorProcessor \<Rightarrow> SensorReading_ptr \<Rightarrow> 'd SensorReading option" where
  "deref p ptr = (case ptr of nullptr \<Rightarrow> None | node_of k \<Rightarrow> sensorData p k)"

text \<open>A statement that only prints.\<close>

definition print :: "string \<Rightarrow> 'p \<times> ostream \<Rightarrow> 'p \<times> ostream" where
  "print s = (\<lambda>(p, cout). (p, cout @ s))"

definition addSensorReading ::
  "'d SensorReading \<Rightarrow> 'd SensorProcessor \<times> ostream \<Rightarrow> 'd SensorProcessor \<times> ostream" where
  "addSensorReading reading = (\<lambda>(p, cout).
     (p\<lparr>sensorData := (sensorData p)(sensorId reading \<mapsto> reading),
         locationIndex := (locationIndex p)(location reading \<mapsto>
            (case locationIndex p (location reading) of None \<Rightarrow> [] | Some ids \<Rightarrow> ids)
              @ [sensorId reading])\<rparr>,
      cout @ ''Added sensor '' @ show_int (sensorId reading) @ '' ('' @ sensorType reading
           @ '') to '' @ location reading @ endl))"

definition addAlert ::
  "Alert \<Rightarrow> 'd SensorProcessor \<times> ostream \<Rightarrow> 'd SensorProcessor \<times> ostream" where
  "addAlert alert = (\<lambda>(p, cout).
     (p\<lparr>alertQueue := pq_push AlertComparator alert (alertQueue p)\<rparr>,
      cout @ ''Added alert: Priority '' @ show_int (priority alert) @ '' - '' @ message alert
           @ endl))"

definition processNextAlert ::
  "'d SensorProcessor \<times> ostream \<Rightarrow> 'd SensorProcessor \<times> ostream" where
  "processNextAlert = (\<lambda>(p, cout).
     if pq_empty (alertQueue p)
     then (p, cout @ ''No alerts to process - queue is empty'' @ endl)
     else (let currentAlert = pq_top (alertQueue p)
           in (p\<lparr>alertQueue := pq_pop AlertComparator (alertQueue p)\<rparr>,
               cout @ ''Processing Priority '' @ show_int (priority currentAlert) @ '': ''
                    @ message currentAlert @ '' ('' @ alertType currentAlert @ '')'' @ endl)))"

definition findSensorById :: "'d SensorProcessor \<Rightarrow> int \<Rightarrow> SensorReading_ptr" where
  "findSensorById p sensorId' =
     (case sensorData p sensorId' of Some r \<Rightarrow> node_of sensorId' | None \<Rightarrow> nullptr)"

definition getSensorsByLocation :: "'d SensorProcessor \<Rightarrow> string \<Rightarrow> SensorReading_ptr list" where
  "getSensorsByLocation p loc =
     (case locationIndex p loc of
        None \<Rightarrow> []
      | Some ids \<Rightarrow>
          fold (\<lambda>sensorId' result.
                  case sensorData p sensorId' of
                    Some r \<Rightarrow> result @ [node_of sensorId']
                  | None \<Rightarrow> result)
               ids [])"

text \<open>The member function \<^verbatim>\<open>runTests\<close> (lines 313 to 375), statement by statement.\<close>

definition runTests ::
  "'d double_ops \<Rightarrow> 'd SensorProcessor \<times> ostream \<Rightarrow> 'd SensorProcessor \<times> ostream" where
  "runTests ops s0 =
     (let s = print (''=== Sensor Processing System Tests ==='' @ endl) s0;
          s = print (endl @ ''Adding sensor readings...'' @ endl) s;
          s = addSensorReading \<lparr>sensorId = 101, location = ''Building_A'',
                sensorType = ''temperature'', value' = d_lit ops (725 / 10)\<rparr> s;
          s = addSensorReading \<lparr>sensorId = 102, location = ''Building_A'',
                sensorType = ''humidity'', value' = d_lit ops (452 / 10)\<rparr> s;
          s = addSensorReading \<lparr>sensorId = 201, location = ''Building_B'',
                sensorType = ''temperature'', value' = d_lit ops (681 / 10)\<rparr> s;
          s = addSensorReading \<lparr>sensorId = 202, location = ''Building_B'',
                sensorType = ''humidity'', value' = d_lit ops (527 / 10)\<rparr> s;
          s = addSensorReading \<lparr>sensorId = 301, location = ''Building_C'',
                sensorType = ''temperature'', value' = d_lit ops (743 / 10)\<rparr> s;
          s = print (check_mark @ '' Sensor data added'' @ endl) s;
          s = print (endl @ ''Testing ID-based lookup...'' @ endl) s;
          sensor = findSensorById (fst s) 102;
          s = (if sensor \<noteq> nullptr
               then (case deref (fst s) sensor of
                       Some r \<Rightarrow>
                         print (check_mark @ '' Found sensor '' @ show_int (sensorId r) @ '' in ''
                                @ location r @ '' (value: '' @ d_show ops (value' r) @ '')''
                                @ endl) s
                     | None \<Rightarrow> s)
               else print (cross_mark @ '' Sensor 102 not found'' @ endl) s);
          missingSensor = findSensorById (fst s) 999;
          s = (if missingSensor = nullptr
               then print (check_mark @ '' Correctly returned nullptr for missing sensor 999''
                           @ endl) s
               else print (cross_mark @ '' Should return nullptr for missing sensor'' @ endl) s);
          s = print (endl @ ''Testing location-based queries...'' @ endl) s;
          buildingASensors = getSensorsByLocation (fst s) ''Building_A'';
          s = print (check_mark @ '' Found '' @ show_nat (length buildingASensors)
                     @ '' sensors in Building_A:'' @ endl) s;
          s = fold (\<lambda>sensor s.
                      case deref (fst s) sensor of
                        Some r \<Rightarrow>
                          print (''  - Sensor '' @ show_int (sensorId r) @ '' ('' @ sensorType r
                                 @ '')'' @ endl) s
                      | None \<Rightarrow> s)
                   buildingASensors s;
          buildingBSensors = getSensorsByLocation (fst s) ''Building_B'';
          s = print (check_mark @ '' Found '' @ show_nat (length buildingBSensors)
                     @ '' sensors in Building_B'' @ endl) s;
          emptySensors = getSensorsByLocation (fst s) ''Building_Z'';
          s = print (check_mark @ '' Found '' @ show_nat (length emptySensors)
                     @ '' sensors in Building_Z (should be 0)'' @ endl) s;
          s = print (endl @ ''Testing priority alert processing...'' @ endl) s;
          s = addAlert \<lparr>priority = 3, message = ''Temperature threshold exceeded'',
                alertType = ''WARNING''\<rparr> s;
          s = addAlert \<lparr>priority = 9, message = ''Critical system failure'',
                alertType = ''CRITICAL''\<rparr> s;
          s = addAlert \<lparr>priority = 1, message = ''Low battery detected'',
                alertType = ''INFO''\<rparr> s;
          s = addAlert \<lparr>priority = 7, message = ''Network connectivity issue'',
                alertType = ''ERROR''\<rparr> s;
          s = print (endl @ ''Processing alerts by priority (highest first):'' @ endl) s;
          s = processNextAlert s;
          s = processNextAlert s;
          s = processNextAlert s;
          s = processNextAlert s;
          s = print (endl @ ''Trying to process alert from empty queue:'' @ endl) s;
          s = processNextAlert s;
          s = print (endl @ ''=== Testing Complete ==='' @ endl) s
      in s)"

text \<open>
  The lines under the heading \<^verbatim>\<open>EXPECTED COMPLETE OUTPUT:\<close> of the comment that closes the
  source file (lines 413 to 452), up to the next heading of that comment
  (\<^verbatim>\<open>PERFORMANCE ANALYSIS:\<close>, which lists complexities and is not console output). The first
  three are what the two output statements of \<^verbatim>\<open>main\<close> would write, the other thirty-seven
  are for \<^verbatim>\<open>runTests\<close>. Each line ends with a line feed.
\<close>

definition EXPECTED_COMPLETE_OUTPUT :: "string list" where
  "EXPECTED_COMPLETE_OUTPUT =
    [''=== Sensor Data Processing System ==='',
     ''Demonstrating STL container selection for efficient data processing'',
     [],
     ''=== Sensor Processing System Tests ==='',
     [],
     ''Adding sensor readings...'',
     ''Added sensor 101 (temperature) to Building_A'',
     ''Added sensor 102 (humidity) to Building_A'',
     ''Added sensor 201 (temperature) to Building_B'',
     ''Added sensor 202 (humidity) to Building_B'',
     ''Added sensor 301 (temperature) to Building_C'',
     check_mark @ '' Sensor data added'',
     [],
     ''Testing ID-based lookup...'',
     check_mark @ '' Found sensor 102 in Building_A (value: 45.2)'',
     check_mark @ '' Correctly returned nullptr for missing sensor 999'',
     [],
     ''Testing location-based queries...'',
     check_mark @ '' Found 2 sensors in Building_A:'',
     ''  - Sensor 101 (temperature)'',
     ''  - Sensor 102 (humidity)'',
     check_mark @ '' Found 2 sensors in Building_B'',
     check_mark @ '' Found 0 sensors in Building_Z (should be 0)'',
     [],
     ''Testing priority alert processing...'',
     ''Added alert: Priority 3 - Temperature threshold exceeded'',
     ''Added alert: Priority 9 - Critical system failure'',
     ''Added alert: Priority 1 - Low battery detected'',
     ''Added alert: Priority 7 - Network connectivity issue'',
     [],
     ''Processing alerts by priority (highest first):'',
     ''Processing Priority 9: Critical system failure (CRITICAL)'',
     ''Processing Priority 7: Network connectivity issue (ERROR)'',
     ''Processing Priority 3: Temperature threshold exceeded (WARNING)'',
     ''Processing Priority 1: Low battery detected (INFO)'',
     [],
     ''Trying to process alert from empty queue:'',
     ''No alerts to process - queue is empty'',
     [],
     ''=== Testing Complete ==='']"

definition unlines :: "string list \<Rightarrow> string" where
  "unlines ls = concat (map (\<lambda>l. l @ [CHR 0x0A]) ls)"

text \<open>
  The states the class can reach through its three mutating member functions, called in
  any order from the freshly constructed object, and the readings such a run has stored.
\<close>

datatype 'd call = AddSensorReading "'d SensorReading" | AddAlert Alert | ProcessNextAlert

fun do_call :: "'d call \<Rightarrow> 'd SensorProcessor \<times> ostream \<Rightarrow> 'd SensorProcessor \<times> ostream" where
  "do_call (AddSensorReading r) s = addSensorReading r s"
| "do_call (AddAlert a) s = addAlert a s"
| "do_call ProcessNextAlert s = processNextAlert s"

fun readings_of :: "'d call list \<Rightarrow> 'd SensorReading list" where
  "readings_of [] = []"
| "readings_of (AddSensorReading r # cs) = r # readings_of cs"
| "readings_of (AddAlert a # cs) = readings_of cs"
| "readings_of (ProcessNextAlert # cs) = readings_of cs"

text \<open>
  Invariants of the heap algorithms for a comparator of the form \<open>key a < key b\<close>: the heap
  property on a prefix, and the property with one position excepted while an element moves
  up or down.
\<close>

definition heap_on :: "('a \<Rightarrow> int) \<Rightarrow> 'a list \<Rightarrow> nat \<Rightarrow> bool" where
  "heap_on key xs n = (\<forall>j<n. 0 < j \<longrightarrow> key (xs ! j) \<le> key (xs ! ((j - 1) div 2)))"

definition up_ok :: "('a \<Rightarrow> int) \<Rightarrow> 'a list \<Rightarrow> nat \<Rightarrow> bool" where
  "up_ok key xs i =
     (i < length xs \<and>
      (\<forall>j<length xs. 0 < j \<longrightarrow> j \<noteq> i \<longrightarrow> key (xs ! j) \<le> key (xs ! ((j - 1) div 2))) \<and>
      (\<forall>j<length xs. 0 < j \<longrightarrow> (j - 1) div 2 = i \<longrightarrow> 0 < i \<longrightarrow>
           key (xs ! j) \<le> key (xs ! ((i - 1) div 2))))"

definition down_ok :: "('a \<Rightarrow> int) \<Rightarrow> 'a list \<Rightarrow> nat \<Rightarrow> nat \<Rightarrow> bool" where
  "down_ok key xs n i =
     (n \<le> length xs \<and>
      (\<forall>j<n. 0 < j \<longrightarrow> (j - 1) div 2 \<noteq> i \<longrightarrow> key (xs ! j) \<le> key (xs ! ((j - 1) div 2))) \<and>
      (\<forall>j<n. 0 < j \<longrightarrow> (j - 1) div 2 = i \<longrightarrow> 0 < i \<longrightarrow>
           key (xs ! j) \<le> key (xs ! ((i - 1) div 2))))"

section \<open>The transaction pipeline (\<^verbatim>\<open>stlAlgoPipeline_practice.cpp\<close> and \<^verbatim>\<open>stlAlgoPipeline_practice_range.cpp\<close>)\<close>

record 'd Transaction =
  id' :: int
  customerId :: string
  amount :: 'd
  region :: string
  taxAmount :: 'd
  discount :: 'd
  finalTotal :: 'd

definition TAX_RATE :: "'d double_ops \<Rightarrow> 'd" where
  "TAX_RATE ops = d_lit ops (8 / 100)"

definition DISCOUNT_THRESHOLD :: "'d double_ops \<Rightarrow> 'd" where
  "DISCOUNT_THRESHOLD ops = d_lit ops 1000"

definition DISCOUNT_RATE :: "'d double_ops \<Rightarrow> 'd" where
  "DISCOUNT_RATE ops = d_lit ops (10 / 100)"

text \<open>The constructor: the derived fields start at 0, 0 and the amount.\<close>

definition new_Transaction :: "'d double_ops \<Rightarrow> int \<Rightarrow> string \<Rightarrow> 'd \<Rightarrow> string \<Rightarrow> 'd Transaction" where
  "new_Transaction ops i cust amt reg =
     \<lparr>id' = i, customerId = cust, amount = amt, region = reg,
      taxAmount = d_lit ops 0, discount = d_lit ops 0, finalTotal = amt\<rparr>"

text \<open>The helpers and the function object of \<^verbatim>\<open>stlAlgoPipeline_practice.cpp\<close>.\<close>

definition hasValidAmount :: "'d double_ops \<Rightarrow> 'd Transaction \<Rightarrow> bool" where
  "hasValidAmount ops t = d_greater ops (amount t) (d_lit ops 0)"

definition hasValidCustomer :: "'d Transaction \<Rightarrow> bool" where
  "hasValidCustomer t = (length (customerId t) > 0)"

definition IsValidTransaction :: "'d double_ops \<Rightarrow> 'd Transaction \<Rightarrow> bool" where
  "IsValidTransaction ops t = (let validity = hasValidAmount ops t \<and> hasValidCustomer t in validity)"

text \<open>The function object of \<^verbatim>\<open>stlAlgoPipeline_practice_range.cpp\<close>.\<close>

definition IsValidTransaction_range :: "'d double_ops \<Rightarrow> 'd Transaction \<Rightarrow> bool" where
  "IsValidTransaction_range ops t =
     (let validity = d_greater ops (amount t) (d_lit ops 0) \<and> \<not> (customerId t = []) in validity)"

text \<open>\<^verbatim>\<open>CalculateDerivedValues\<close>, the same text in both files: three assignments in order.\<close>

definition CalculateDerivedValues :: "'d double_ops \<Rightarrow> 'd Transaction \<Rightarrow> 'd Transaction" where
  "CalculateDerivedValues ops t0 =
     (let t = t0\<lparr>taxAmount := d_mult ops (amount t0) (TAX_RATE ops)\<rparr>;
          t = t\<lparr>discount := (if d_greater ops (amount t) (DISCOUNT_THRESHOLD ops)
                               then d_mult ops (amount t) (DISCOUNT_RATE ops)
                               else d_lit ops 0)\<rparr>;
          t = t\<lparr>finalTotal := d_minus ops (d_plus ops (amount t) (taxAmount t)) (discount t)\<rparr>
      in t)"

subsection \<open>The algorithms of the standard library the pipeline calls\<close>

text \<open>
  \<^verbatim>\<open>copy_if(first, last, back_inserter(v), pred)\<close> walks the range and appends to \<open>v\<close>;
  \<^verbatim>\<open>count_if\<close> walks the range and increments a counter.
\<close>

fun copy_if :: "'a list \<Rightarrow> 'a list \<Rightarrow> ('a \<Rightarrow> bool) \<Rightarrow> 'a list" where
  "copy_if [] v pred = v"
| "copy_if (x # xs) v pred = copy_if xs (if pred x then v @ [x] else v) pred"

fun count_if_from :: "nat \<Rightarrow> 'a list \<Rightarrow> ('a \<Rightarrow> bool) \<Rightarrow> nat" where
  "count_if_from ret [] pred = ret"
| "count_if_from ret (x # xs) pred = count_if_from (if pred x then ret + 1 else ret) xs pred"

definition count_if :: "'a list \<Rightarrow> ('a \<Rightarrow> bool) \<Rightarrow> nat" where
  "count_if xs pred = count_if_from 0 xs pred"

text \<open>
  \<^verbatim>\<open>views::filter\<close> is lazy: the view holds the range and the predicate and computes nothing
  when it is built. An iterator of the view is a position of the underlying range, here the
  rest of the range from that position on; \<^verbatim>\<open>begin()\<close> searches the first element that
  satisfies the predicate and \<^verbatim>\<open>++\<close> searches the next one. \<^verbatim>\<open>ranges::to<vector>\<close> walks the
  view from \<^verbatim>\<open>begin()\<close> to \<^verbatim>\<open>end()\<close> and appends what it reads.
\<close>

fun find_if :: "'a list \<Rightarrow> ('a \<Rightarrow> bool) \<Rightarrow> 'a list" where
  "find_if [] pred = []"
| "find_if (x # xs) pred = (if pred x then x # xs else find_if xs pred)"

record 'a filter_view =
  base :: "'a list"
  pred_of :: "'a \<Rightarrow> bool"

definition views_filter :: "'a list \<Rightarrow> ('a \<Rightarrow> bool) \<Rightarrow> 'a filter_view" where
  "views_filter r pred = \<lparr>base = r, pred_of = pred\<rparr>"

definition filter_begin :: "'a filter_view \<Rightarrow> 'a list" where
  "filter_begin v = find_if (base v) (pred_of v)"

definition filter_next :: "'a filter_view \<Rightarrow> 'a list \<Rightarrow> 'a list" where
  "filter_next v it = find_if (tl it) (pred_of v)"

function collect_view :: "'a filter_view \<Rightarrow> 'a list \<Rightarrow> 'a list \<Rightarrow> 'a list" where
  "collect_view v it out =
     (if it = [] then out else collect_view v (filter_next v it) (out @ [hd it]))"
  by pat_completeness auto
termination
proof (relation "measure (\<lambda>(v, it, out). length it)")
  show "wf (measure (\<lambda>(v, it, out). length it))" by simp
next
  fix v :: "'a filter_view" and it out :: "'a list"
  assume "it \<noteq> []"
  have "length (find_if ys p) \<le> length ys" for ys :: "'a list" and p
    by (induction ys) auto
  from this [of "tl it" "pred_of v"] \<open>it \<noteq> []\<close>
  have "length (find_if (tl it) (pred_of v)) < length it"
    by (cases it) auto
  then show "((v, filter_next v it, out @ [hd it]), (v, it, out)) \<in> measure (\<lambda>(v, it, out). length it)"
    by (simp add: filter_next_def)
qed

declare collect_view.simps [simp del]

definition ranges_to_vector :: "'a filter_view \<Rightarrow> 'a list" where
  "ranges_to_vector v = collect_view v (filter_begin v) []"

subsection \<open>\<^verbatim>\<open>AlgorithmPipeline::filterValidTransactions\<close>\<close>

record 'd AlgorithmPipeline =
  rawTransactions :: "'d Transaction list"
  validTransactions :: "'d Transaction list"

text \<open>The traditional version (\<^verbatim>\<open>copy_if\<close> into a \<^verbatim>\<open>back_inserter\<close>).\<close>

definition filterValidTransactions ::
  "'d double_ops \<Rightarrow> 'd AlgorithmPipeline \<times> ostream \<Rightarrow> 'd AlgorithmPipeline \<times> ostream" where
  "filterValidTransactions ops = (\<lambda>(pl, cout).
     (let cout = cout @ ''Original transactions: '' @ show_nat (length (rawTransactions pl)) @ endl;
          isValid = IsValidTransaction ops;
          pl = pl\<lparr>validTransactions := []\<rparr>;
          pl = pl\<lparr>validTransactions := copy_if (rawTransactions pl) (validTransactions pl) isValid\<rparr>;
          invalid_count = count_if (rawTransactions pl) (\<lambda>t. \<not> isValid t);
          cout = cout @ ''Valid transactions: '' @ show_nat (length (validTransactions pl)) @ endl;
          cout = cout @ ''Invalid transactions: '' @ show_nat invalid_count @ endl
      in (pl, cout)))"

text \<open>The range-based version (a filter view materialised by \<^verbatim>\<open>ranges::to\<close>).\<close>

definition filterValidTransactions_range ::
  "'d double_ops \<Rightarrow> 'd AlgorithmPipeline \<times> ostream \<Rightarrow> 'd AlgorithmPipeline \<times> ostream" where
  "filterValidTransactions_range ops = (\<lambda>(pl, cout).
     (let cout = cout @ ''Original transactions: '' @ show_nat (length (rawTransactions pl)) @ endl;
          isValid = IsValidTransaction_range ops;
          pl = pl\<lparr>validTransactions := []\<rparr>;
          pl = pl\<lparr>validTransactions := ranges_to_vector (views_filter (rawTransactions pl) isValid)\<rparr>;
          invalid_count = count_if (rawTransactions pl) (\<lambda>t. \<not> isValid t);
          cout = cout @ ''Valid transactions: '' @ show_nat (length (validTransactions pl)) @ endl;
          cout = cout @ ''Invalid transactions: '' @ show_nat invalid_count @ endl
      in (pl, cout)))"

section \<open>The chunked transform (\<^verbatim>\<open>stlAlgoPractice_3.cpp\<close>)\<close>

text \<open>
  The template parameters are modelled by what the algorithms do with them.

  \<^item> An input iterator is a value of a type \<open>'i\<close>. What the iterators of a range share (the
    container they point into, the stream they read from) is a value of a type \<open>'w\<close>, the
    source. The algorithms compare two iterators (\<open>it_eq\<close>, \<^verbatim>\<open>a == b\<close>), read through one
    (\<open>it_deref\<close>, \<^verbatim>\<open>*a\<close>) and increment one (\<open>it_next\<close>, \<^verbatim>\<open>++a\<close>). Incrementing returns the
    iterator after the step and the source after the step: an iterator into a container
    leaves the container as it is, an iterator over a stream takes the next value out of
    the stream, so that every copy of it sees the stream shorter. The template parameter is
    named \<^verbatim>\<open>InputIt\<close> and is not constrained, so both kinds are arguments it accepts.
  \<^item> An output iterator is a value of a type \<open>'o\<close> with the one operation the algorithms
    use, \<^verbatim>\<open>*it++ = v\<close>, here \<open>assign\<close>: it returns the iterator after the write and the
    source after the write, since the destination may be the very container that is being
    read (a transform in place).
  \<^item> A unary operation is a function object: a value of a type \<open>'f\<close> (its data members)
    with its call operator \<open>call\<close>, which returns the result and the object after the call.
    A plain function or a lambda that captures nothing is the case where the call leaves
    the object as it was.
\<close>

record ('w, 'i, 'a) input_iterator =
  it_eq :: "'i \<Rightarrow> 'i \<Rightarrow> bool"
  it_deref :: "'w \<Rightarrow> 'i \<Rightarrow> 'a"
  it_next :: "'w \<Rightarrow> 'i \<Rightarrow> 'w \<times> 'i"




text \<open>\<^verbatim>\<open>std::advance(i, n)\<close> for a non-negative \<open>n\<close>: \<open>n\<close> increments.\<close>

fun std_advance :: "('w, 'i, 'a) input_iterator \<Rightarrow> 'w \<Rightarrow> 'i \<Rightarrow> nat \<Rightarrow> 'w \<times> 'i" where
  "std_advance it w i 0 = (w, i)"
| "std_advance it w i (Suc n) = (case it_next it w i of (w', i') \<Rightarrow> std_advance it w' i' n)"






text \<open>The iterator \<open>k\<close> increments after \<open>i\<close>.\<close>

definition it_at :: "('w, 'i, 'a) input_iterator \<Rightarrow> 'w \<Rightarrow> 'i \<Rightarrow> nat \<Rightarrow> 'i" where
  "it_at it w i k = snd (std_advance it w i k)"






section \<open>Properties of the sensor processor\<close>

subsection \<open>What each member function does to the two maps\<close>

lemma sensorData_addSensorReading:
  "sensorData (fst (addSensorReading r s)) = (sensorData (fst s))(sensorId r \<mapsto> r)"
  by (cases s) (simp add: addSensorReading_def)

lemma locationIndex_addSensorReading:
  "locationIndex (fst (addSensorReading r s)) =
     (locationIndex (fst s))(location r \<mapsto>
        (case locationIndex (fst s) (location r) of None \<Rightarrow> [] | Some ids \<Rightarrow> ids) @ [sensorId r])"
  by (cases s) (simp add: addSensorReading_def)

lemma maps_addAlert:
  "sensorData (fst (addAlert a s)) = sensorData (fst s) \<and>
   locationIndex (fst (addAlert a s)) = locationIndex (fst s)"
  by (cases s) (simp add: addAlert_def)

lemma maps_processNextAlert:
  "sensorData (fst (processNextAlert s)) = sensorData (fst s) \<and>
   locationIndex (fst (processNextAlert s)) = locationIndex (fst s)"
  by (cases s) (simp add: processNextAlert_def Let_def)

lemma readings_of_snoc:
  "readings_of (cs @ [c]) =
     readings_of cs @ (case c of AddSensorReading r \<Rightarrow> [r] | AddAlert a \<Rightarrow> [] | ProcessNextAlert \<Rightarrow> [])"
  by (induction cs rule: readings_of.induct) (auto split: call.splits)

lemma sensorData_run:
  "sensorData (fst (fold do_call cs (new_SensorProcessor, out))) k =
     (if k \<in> sensorId ` set (readings_of cs)
      then Some (last (filter (\<lambda>r. sensorId r = k) (readings_of cs))) else None)"
proof (induction cs rule: rev_induct)
  case Nil
  show ?case by (simp add: new_SensorProcessor_def)
next
  case (snoc c cs)
  show ?case
  proof (cases c)
    case (AddSensorReading r)
    show ?thesis
    proof (cases "sensorId r = k")
      case True
      with AddSensorReading show ?thesis
        by (simp add: readings_of_snoc sensorData_addSensorReading)
    next
      case False
      with AddSensorReading snoc.IH show ?thesis
        by (auto simp add: readings_of_snoc sensorData_addSensorReading)
    qed
  next
    case (AddAlert a)
    with snoc.IH show ?thesis
      by (simp add: readings_of_snoc maps_addAlert)
  next
    case ProcessNextAlert
    with snoc.IH show ?thesis
      by (simp add: readings_of_snoc maps_processNextAlert)
  qed
qed

lemma locationIndex_run:
  "locationIndex (fst (fold do_call cs (new_SensorProcessor, out))) L =
     (if L \<in> location ` set (readings_of cs)
      then Some (map sensorId (filter (\<lambda>r. location r = L) (readings_of cs))) else None)"
proof (induction cs rule: rev_induct)
  case Nil
  show ?case by (simp add: new_SensorProcessor_def)
next
  case (snoc c cs)
  show ?case
  proof (cases c)
    case (AddSensorReading r)
    show ?thesis
    proof (cases "location r = L")
      case True
      show ?thesis
      proof (cases "L \<in> location ` set (readings_of cs)")
        case in_rs: True
        with True AddSensorReading snoc.IH show ?thesis
          by (simp add: readings_of_snoc locationIndex_addSensorReading)
      next
        case not_in_rs: False
        then have "filter (\<lambda>r. location r = L) (readings_of cs) = []"
          by (auto simp: filter_empty_conv)
        with True not_in_rs AddSensorReading snoc.IH show ?thesis
          by (simp add: readings_of_snoc locationIndex_addSensorReading)
      qed
    next
      case False
      with AddSensorReading snoc.IH show ?thesis
        by (auto simp add: readings_of_snoc locationIndex_addSensorReading)
    qed
  next
    case (AddAlert a)
    with snoc.IH show ?thesis
      by (simp add: readings_of_snoc maps_addAlert)
  next
    case ProcessNextAlert
    with snoc.IH show ?thesis
      by (simp add: readings_of_snoc maps_processNextAlert)
  qed
qed

lemma collect_pointers:
  "fold (\<lambda>k result. case m k of Some r \<Rightarrow> result @ [node_of k] | None \<Rightarrow> result) ids acc =
     acc @ map node_of (filter (\<lambda>k. m k \<noteq> None) ids)"
  by (induction ids arbitrary: acc) (auto split: option.splits)

lemma getSensorsByLocation_eq:
  "getSensorsByLocation p L =
     (case locationIndex p L of None \<Rightarrow> []
      | Some ids \<Rightarrow> map node_of (filter (\<lambda>k. sensorData p k \<noteq> None) ids))"
  by (simp add: getSensorsByLocation_def collect_pointers split: option.splits)

lemma getSensorsByLocation_run:
  "getSensorsByLocation (fst (fold do_call cs (new_SensorProcessor, out))) L =
     map (\<lambda>r. node_of (sensorId r)) (filter (\<lambda>r. location r = L) (readings_of cs))"
proof -
  let ?p = "fst (fold do_call cs (new_SensorProcessor, out))"
  let ?fs = "filter (\<lambda>r. location r = L) (readings_of cs)"
  have "\<forall>k \<in> set (map sensorId ?fs). sensorData ?p k \<noteq> None"
    by (auto simp: sensorData_run)
  then have "filter (\<lambda>k. sensorData ?p k \<noteq> None) (map sensorId ?fs) = map sensorId ?fs"
    by (simp only: filter_True)
  moreover have "L \<notin> location ` set (readings_of cs) \<Longrightarrow> ?fs = []"
    by (auto simp: filter_empty_conv)
  ultimately show ?thesis
    by (simp add: getSensorsByLocation_eq locationIndex_run comp_def)
qed

lemmas sensor_run_defs = print_def addSensorReading_def addAlert_def processNextAlert_def
  findSensorById_def getSensorsByLocation_def deref_def new_SensorProcessor_def
  pq_empty_def pq_top_def pq_push_def pq_pop_def push_heap_def pop_heap_def swap_at_def
  AlertComparator_def show_int_def show_nat.simps sift_up.simps sift_down.simps endl_def

subsection \<open>Lookup by identifier\<close>

text \<open>
  C2. After any sequence of calls of the three mutating member functions on a fresh
  processor, \<open>findSensorById k\<close> is the null pointer exactly when no reading with identifier
  \<open>k\<close> was added; otherwise it is the address of the value stored under \<open>k\<close>, and that value
  is the reading added last with this identifier. In particular, after the five readings of
  \<open>runTests\<close> (identifiers 101, 102, 201, 202, 301, whatever their values), the lookup of 999
  is the null pointer.
\<close>

theorem findSensorById_null_iff_not_stored:
  "(findSensorById (fst (fold do_call cs (new_SensorProcessor, out))) k = nullptr
      \<longleftrightarrow> k \<notin> sensorId ` set (readings_of cs)) \<and>
   (k \<in> sensorId ` set (readings_of cs) \<longrightarrow>
      findSensorById (fst (fold do_call cs (new_SensorProcessor, out))) k = node_of k \<and>
      deref (fst (fold do_call cs (new_SensorProcessor, out))) (node_of k) =
        Some (last (filter (\<lambda>r. sensorId r = k) (readings_of cs)))) \<and>
   findSensorById
     (fst (addSensorReading \<lparr>sensorId = 301, location = ''Building_C'', sensorType = ''temperature'', value' = v5\<rparr>
          (addSensorReading \<lparr>sensorId = 202, location = ''Building_B'', sensorType = ''humidity'', value' = v4\<rparr>
          (addSensorReading \<lparr>sensorId = 201, location = ''Building_B'', sensorType = ''temperature'', value' = v3\<rparr>
          (addSensorReading \<lparr>sensorId = 102, location = ''Building_A'', sensorType = ''humidity'', value' = v2\<rparr>
          (addSensorReading \<lparr>sensorId = 101, location = ''Building_A'', sensorType = ''temperature'', value' = v1\<rparr>
          (new_SensorProcessor, out'))))))) 999 = nullptr"
proof (intro conjI impI)
  show "findSensorById (fst (fold do_call cs (new_SensorProcessor, out))) k = nullptr
          \<longleftrightarrow> k \<notin> sensorId ` set (readings_of cs)"
    by (simp add: findSensorById_def sensorData_run)
next
  assume "k \<in> sensorId ` set (readings_of cs)"
  then show "findSensorById (fst (fold do_call cs (new_SensorProcessor, out))) k = node_of k"
    by (simp add: findSensorById_def sensorData_run)
next
  assume "k \<in> sensorId ` set (readings_of cs)"
  then show "deref (fst (fold do_call cs (new_SensorProcessor, out))) (node_of k) =
        Some (last (filter (\<lambda>r. sensorId r = k) (readings_of cs)))"
    by (simp add: deref_def sensorData_run)
next
  show "findSensorById
     (fst (addSensorReading \<lparr>sensorId = 301, location = ''Building_C'', sensorType = ''temperature'', value' = v5\<rparr>
          (addSensorReading \<lparr>sensorId = 202, location = ''Building_B'', sensorType = ''humidity'', value' = v4\<rparr>
          (addSensorReading \<lparr>sensorId = 201, location = ''Building_B'', sensorType = ''temperature'', value' = v3\<rparr>
          (addSensorReading \<lparr>sensorId = 102, location = ''Building_A'', sensorType = ''humidity'', value' = v2\<rparr>
          (addSensorReading \<lparr>sensorId = 101, location = ''Building_A'', sensorType = ''temperature'', value' = v1\<rparr>
          (new_SensorProcessor, out'))))))) 999 = nullptr"
    by (simp add: findSensorById_def sensorData_addSensorReading new_SensorProcessor_def)
qed

text \<open>
  The theorem at a run that adds two readings under the identifier 7 with an alert in
  between: the lookup of 7 is the address of the stored value, which is the second reading,
  and the lookup of 8 is null.
\<close>

theorem findSensorById_null_iff_not_stored_witness:
  "findSensorById
     (fst (fold do_call
        [AddSensorReading \<lparr>sensorId = 7, location = ''A'', sensorType = ''t'', value' = (1::rat)\<rparr>,
         AddAlert \<lparr>priority = 2, message = ''m'', alertType = ''INFO''\<rparr>,
         AddSensorReading \<lparr>sensorId = 7, location = ''B'', sensorType = ''h'', value' = 2\<rparr>]
        (new_SensorProcessor, ''''))) 7 = node_of 7 \<and>
   deref
     (fst (fold do_call
        [AddSensorReading \<lparr>sensorId = 7, location = ''A'', sensorType = ''t'', value' = (1::rat)\<rparr>,
         AddAlert \<lparr>priority = 2, message = ''m'', alertType = ''INFO''\<rparr>,
         AddSensorReading \<lparr>sensorId = 7, location = ''B'', sensorType = ''h'', value' = 2\<rparr>]
        (new_SensorProcessor, ''''))) (node_of 7) =
     Some \<lparr>sensorId = 7, location = ''B'', sensorType = ''h'', value' = 2\<rparr>"
  using findSensorById_null_iff_not_stored
    [of "[AddSensorReading \<lparr>sensorId = 7, location = ''A'', sensorType = ''t'', value' = (1::rat)\<rparr>,
          AddAlert \<lparr>priority = 2, message = ''m'', alertType = ''INFO''\<rparr>,
          AddSensorReading \<lparr>sensorId = 7, location = ''B'', sensorType = ''h'', value' = 2\<rparr>]"
        "''''" 7 "0::rat" 0 0 0 0 "''''"]
  by simp
subsection \<open>Lookup by location\<close>

text \<open>
  C3. After any sequence of calls on a fresh processor in which no reading with location
  \<open>L\<close> was added, \<open>getSensorsByLocation L\<close> is the empty vector. In particular, after the five
  readings of \<open>runTests\<close> (locations Building_A, Building_B and Building_C),
  the query for Building_Z is empty.
\<close>

theorem getSensorsByLocation_unknown_location_empty:
  "(L \<notin> location ` set (readings_of cs) \<longrightarrow>
      getSensorsByLocation (fst (fold do_call cs (new_SensorProcessor, out))) L = []) \<and>
   getSensorsByLocation
     (fst (addSensorReading \<lparr>sensorId = 301, location = ''Building_C'', sensorType = ''temperature'', value' = v5\<rparr>
          (addSensorReading \<lparr>sensorId = 202, location = ''Building_B'', sensorType = ''humidity'', value' = v4\<rparr>
          (addSensorReading \<lparr>sensorId = 201, location = ''Building_B'', sensorType = ''temperature'', value' = v3\<rparr>
          (addSensorReading \<lparr>sensorId = 102, location = ''Building_A'', sensorType = ''humidity'', value' = v2\<rparr>
          (addSensorReading \<lparr>sensorId = 101, location = ''Building_A'', sensorType = ''temperature'', value' = v1\<rparr>
          (new_SensorProcessor, out'))))))) ''Building_Z'' = []"
proof (intro conjI impI)
  assume "L \<notin> location ` set (readings_of cs)"
  then have "filter (\<lambda>r. location r = L) (readings_of cs) = []"
    by (auto simp: filter_empty_conv)
  then show "getSensorsByLocation (fst (fold do_call cs (new_SensorProcessor, out))) L = []"
    by (simp add: getSensorsByLocation_run)
next
  show "getSensorsByLocation
     (fst (addSensorReading \<lparr>sensorId = 301, location = ''Building_C'', sensorType = ''temperature'', value' = v5\<rparr>
          (addSensorReading \<lparr>sensorId = 202, location = ''Building_B'', sensorType = ''humidity'', value' = v4\<rparr>
          (addSensorReading \<lparr>sensorId = 201, location = ''Building_B'', sensorType = ''temperature'', value' = v3\<rparr>
          (addSensorReading \<lparr>sensorId = 102, location = ''Building_A'', sensorType = ''humidity'', value' = v2\<rparr>
          (addSensorReading \<lparr>sensorId = 101, location = ''Building_A'', sensorType = ''temperature'', value' = v1\<rparr>
          (new_SensorProcessor, out'))))))) ''Building_Z'' = []"
    by (simp add: getSensorsByLocation_eq locationIndex_addSensorReading new_SensorProcessor_def)
qed

text \<open>The theorem at a run that adds one reading in Building_A and queries Building_Z.\<close>

theorem getSensorsByLocation_unknown_location_empty_witness:
  "getSensorsByLocation
     (fst (fold do_call
        [AddSensorReading \<lparr>sensorId = 101, location = ''Building_A'', sensorType = ''temperature'',
                            value' = (725 / 10 :: rat)\<rparr>]
        (new_SensorProcessor, ''''))) ''Building_Z'' = []"
  using getSensorsByLocation_unknown_location_empty
    [of "''Building_Z''"
        "[AddSensorReading \<lparr>sensorId = 101, location = ''Building_A'', sensorType = ''temperature'',
                              value' = (725 / 10 :: rat)\<rparr>]"
        "''''" "0::rat" 0 0 0 0 "''''"]
  by simp

subsection \<open>The empty queue\<close>

text \<open>
  C4. When the alert queue is empty, \<open>processNextAlert\<close> appends the line
  "No alerts to process - queue is empty" to the output and leaves the processor as it
  was: the alert queue, the sensor map and the location index are unchanged.
\<close>

theorem processNextAlert_empty_queue:
  "pq_empty (alertQueue p) \<Longrightarrow>
   processNextAlert (p, cout) = (p, cout @ ''No alerts to process - queue is empty'' @ endl) \<and>
   alertQueue (fst (processNextAlert (p, cout))) = alertQueue p \<and>
   sensorData (fst (processNextAlert (p, cout))) = sensorData p \<and>
   locationIndex (fst (processNextAlert (p, cout))) = locationIndex p"
  by (simp add: processNextAlert_def)

text \<open>The theorem at a processor that holds one reading and no alert.\<close>

theorem processNextAlert_empty_queue_witness:
  "pq_empty (alertQueue
      \<lparr>sensorData = [101 \<mapsto> \<lparr>sensorId = 101, location = ''Building_A'',
                                sensorType = ''temperature'', value' = (725 / 10 :: rat)\<rparr>],
       locationIndex = [''Building_A'' \<mapsto> [101]], alertQueue = []\<rparr>) \<and>
   processNextAlert
     (\<lparr>sensorData = [101 \<mapsto> \<lparr>sensorId = 101, location = ''Building_A'',
                                sensorType = ''temperature'', value' = (725 / 10 :: rat)\<rparr>],
       locationIndex = [''Building_A'' \<mapsto> [101]], alertQueue = []\<rparr>, ''abc'') =
     (\<lparr>sensorData = [101 \<mapsto> \<lparr>sensorId = 101, location = ''Building_A'',
                                sensorType = ''temperature'', value' = (725 / 10 :: rat)\<rparr>],
       locationIndex = [''Building_A'' \<mapsto> [101]], alertQueue = []\<rparr>,
      ''abcNo alerts to process - queue is empty'' @ [CHR 0x0A])"
proof -
  have e: "pq_empty (alertQueue
      \<lparr>sensorData = [101 \<mapsto> \<lparr>sensorId = 101, location = ''Building_A'',
                                sensorType = ''temperature'', value' = (725 / 10 :: rat)\<rparr>],
       locationIndex = [''Building_A'' \<mapsto> [101]], alertQueue = []\<rparr>)"
    by (simp add: pq_empty_def)
  from processNextAlert_empty_queue [OF e, of "''abc''"] e show ?thesis
    by (simp add: endl_def)
qed

subsection \<open>The location index and the sensor map agree\<close>

text \<open>
  C10. After any sequence of calls on a fresh processor: every identifier listed in an entry
  of \<open>locationIndex\<close> is a key of \<open>sensorData\<close>; \<open>getSensorsByLocation L\<close> returns one pointer for
  each added reading whose location is \<open>L\<close>, in the order of the calls, each the address of
  the value stored under that reading's identifier; and the value stored under an
  identifier is the reading added last with it, so the pointers of a repeated identifier
  are equal and all lead to that latest reading.
\<close>

theorem location_index_consistent:
  "(\<forall>L' ids. locationIndex (fst (fold do_call cs (new_SensorProcessor, out))) L' = Some ids \<longrightarrow>
       set ids \<subseteq> dom (sensorData (fst (fold do_call cs (new_SensorProcessor, out))))) \<and>
   getSensorsByLocation (fst (fold do_call cs (new_SensorProcessor, out))) L =
     map (\<lambda>r. node_of (sensorId r)) (filter (\<lambda>r. location r = L) (readings_of cs)) \<and>
   (\<forall>r \<in> set (readings_of cs).
       sensorData (fst (fold do_call cs (new_SensorProcessor, out))) (sensorId r) =
         Some (last (filter (\<lambda>r'. sensorId r' = sensorId r) (readings_of cs))) \<and>
       deref (fst (fold do_call cs (new_SensorProcessor, out))) (node_of (sensorId r)) =
         Some (last (filter (\<lambda>r'. sensorId r' = sensorId r) (readings_of cs))))"
proof (intro conjI allI impI ballI)
  fix L' ids
  assume "locationIndex (fst (fold do_call cs (new_SensorProcessor, out))) L' = Some ids"
  then have "ids = map sensorId (filter (\<lambda>r. location r = L') (readings_of cs))"
    by (simp add: locationIndex_run split: if_splits)
  then show "set ids \<subseteq> dom (sensorData (fst (fold do_call cs (new_SensorProcessor, out))))"
    by (auto simp: sensorData_run dom_def)
next
  show "getSensorsByLocation (fst (fold do_call cs (new_SensorProcessor, out))) L =
     map (\<lambda>r. node_of (sensorId r)) (filter (\<lambda>r. location r = L) (readings_of cs))"
    by (rule getSensorsByLocation_run)
next
  fix r assume "r \<in> set (readings_of cs)"
  then show "sensorData (fst (fold do_call cs (new_SensorProcessor, out))) (sensorId r) =
         Some (last (filter (\<lambda>r'. sensorId r' = sensorId r) (readings_of cs)))"
    by (simp add: sensorData_run)
next
  fix r assume "r \<in> set (readings_of cs)"
  then show "deref (fst (fold do_call cs (new_SensorProcessor, out))) (node_of (sensorId r)) =
         Some (last (filter (\<lambda>r'. sensorId r' = sensorId r) (readings_of cs)))"
    by (simp add: deref_def sensorData_run)
qed

text \<open>
  The theorem at a run that adds sensor 7 twice in location A (values 1 and 2) and sensor 8
  once in location B: the query for A returns the address of sensor 7 twice, that address
  leads to the second reading, and 7 is a key of the sensor map.
\<close>

theorem location_index_consistent_witness:
  "getSensorsByLocation
     (fst (fold do_call
        [AddSensorReading \<lparr>sensorId = 7, location = ''A'', sensorType = ''t'', value' = (1::rat)\<rparr>,
         AddSensorReading \<lparr>sensorId = 8, location = ''B'', sensorType = ''t'', value' = 5\<rparr>,
         AddSensorReading \<lparr>sensorId = 7, location = ''A'', sensorType = ''t'', value' = 2\<rparr>]
        (new_SensorProcessor, ''''))) ''A'' = [node_of 7, node_of 7] \<and>
   deref
     (fst (fold do_call
        [AddSensorReading \<lparr>sensorId = 7, location = ''A'', sensorType = ''t'', value' = (1::rat)\<rparr>,
         AddSensorReading \<lparr>sensorId = 8, location = ''B'', sensorType = ''t'', value' = 5\<rparr>,
         AddSensorReading \<lparr>sensorId = 7, location = ''A'', sensorType = ''t'', value' = 2\<rparr>]
        (new_SensorProcessor, ''''))) (node_of 7) =
     Some \<lparr>sensorId = 7, location = ''A'', sensorType = ''t'', value' = 2\<rparr> \<and>
   set [7, 7] \<subseteq> dom (sensorData
     (fst (fold do_call
        [AddSensorReading \<lparr>sensorId = 7, location = ''A'', sensorType = ''t'', value' = (1::rat)\<rparr>,
         AddSensorReading \<lparr>sensorId = 8, location = ''B'', sensorType = ''t'', value' = 5\<rparr>,
         AddSensorReading \<lparr>sensorId = 7, location = ''A'', sensorType = ''t'', value' = 2\<rparr>]
        (new_SensorProcessor, ''''))))"
proof -
  let ?cs = "[AddSensorReading \<lparr>sensorId = 7, location = ''A'', sensorType = ''t'', value' = (1::rat)\<rparr>,
         AddSensorReading \<lparr>sensorId = 8, location = ''B'', sensorType = ''t'', value' = 5\<rparr>,
         AddSensorReading \<lparr>sensorId = 7, location = ''A'', sensorType = ''t'', value' = 2\<rparr>]"
  note t = location_index_consistent [of ?cs "''''" "''A''"]
  have idx: "locationIndex (fst (fold do_call ?cs (new_SensorProcessor, ''''))) ''A'' = Some [7, 7]"
    by (simp add: addSensorReading_def new_SensorProcessor_def)
  from t have "set [7, 7] \<subseteq> dom (sensorData (fst (fold do_call ?cs (new_SensorProcessor, ''''))))"
    using idx by blast
  moreover from t have "getSensorsByLocation (fst (fold do_call ?cs (new_SensorProcessor, ''''))) ''A''
      = [node_of 7, node_of 7]"
    by simp
  moreover from t have "deref (fst (fold do_call ?cs (new_SensorProcessor, ''''))) (node_of 7) =
     Some \<lparr>sensorId = 7, location = ''A'', sensorType = ''t'', value' = 2\<rparr>"
    by simp
  ultimately show ?thesis by blast
qed
section \<open>The heap algorithms keep the heap property\<close>

lemma length_swap_at [simp]: "length (swap_at xs i j) = length xs"
  by (simp add: swap_at_def)

lemma nth_swap_at:
  "i < length xs \<Longrightarrow> j < length xs \<Longrightarrow> k < length xs \<Longrightarrow>
   swap_at xs i j ! k = (if k = j then xs ! i else if k = i then xs ! j else xs ! k)"
  by (simp add: swap_at_def nth_list_update)

lemma mset_swap_at: "i < length xs \<Longrightarrow> j < length xs \<Longrightarrow> mset (swap_at xs i j) = mset xs"
  by (simp add: swap_at_def mset_swap)

lemma parent_less: "0 < i \<Longrightarrow> (i - 1) div 2 < (i::nat)"
  by arith

lemma sift_down_step:
  "c = (if 2 * i + 2 < n \<and> cmp (xs ! (2 * i + 1)) (xs ! (2 * i + 2)) then 2 * i + 2 else 2 * i + 1) \<Longrightarrow>
   sift_down cmp xs n i =
     (if 2 * i + 1 < n \<and> cmp (xs ! i) (xs ! c) then sift_down cmp (swap_at xs i c) n c else xs)"
  by (subst sift_down.simps) (simp add: Let_def)

lemma length_sift_down [simp]: "length (sift_down cmp xs n i) = length xs"
proof (induction cmp xs n i rule: sift_down.induct)
  case (1 cmp xs n i)
  define c where "c = (if 2 * i + 2 < n \<and> cmp (xs ! (2 * i + 1)) (xs ! (2 * i + 2)) then 2 * i + 2 else 2 * i + 1)"
  show ?case
    using "1.IH" [OF refl refl _ c_def] by (simp add: sift_down_step [of c i n cmp xs, OF c_def])
qed

lemma mset_sift_down: "n \<le> length xs \<Longrightarrow> mset (sift_down cmp xs n i) = mset xs"
proof (induction cmp xs n i rule: sift_down.induct)
  case (1 cmp xs n i)
  define c where "c = (if 2 * i + 2 < n \<and> cmp (xs ! (2 * i + 1)) (xs ! (2 * i + 2)) then 2 * i + 2 else 2 * i + 1)"
  show ?case
  proof (cases "2 * i + 1 < n \<and> cmp (xs ! i) (xs ! c)")
    case False
    then show ?thesis
      by (auto simp: sift_down_step [of c i n cmp xs, OF c_def])
  next
    case True
    then have cn: "c < n" and "i < n" by (auto simp: c_def)
    then have "mset (swap_at xs i c) = mset xs"
      using "1.prems" by (intro mset_swap_at) auto
    moreover have "mset (sift_down cmp (swap_at xs i c) n c) = mset (swap_at xs i c)"
      using "1.IH" [OF refl refl _ c_def] True "1.prems" by simp
    ultimately show ?thesis
      using True by (simp add: sift_down_step [of c i n cmp xs, OF c_def])
  qed
qed

lemma sift_down_outside:
  "n \<le> length xs \<Longrightarrow> n \<le> k \<Longrightarrow> sift_down cmp xs n i ! k = xs ! k"
proof (induction cmp xs n i rule: sift_down.induct)
  case (1 cmp xs n i)
  define c where "c = (if 2 * i + 2 < n \<and> cmp (xs ! (2 * i + 1)) (xs ! (2 * i + 2)) then 2 * i + 2 else 2 * i + 1)"
  show ?case
  proof (cases "2 * i + 1 < n \<and> cmp (xs ! i) (xs ! c)")
    case False
    then show ?thesis
      by (auto simp: sift_down_step [of c i n cmp xs, OF c_def])
  next
    case True
    then have cn: "c < n" and "i < n" by (auto simp: c_def)
    then have "swap_at xs i c ! k = xs ! k"
      using "1.prems" by (simp add: swap_at_def)
    moreover have "sift_down cmp (swap_at xs i c) n c ! k = swap_at xs i c ! k"
      using "1.IH" [OF refl refl _ c_def] True "1.prems" by simp
    ultimately show ?thesis
      using True by (simp add: sift_down_step [of c i n cmp xs, OF c_def])
  qed
qed

lemma sift_down_heap:
  "down_ok key xs n i \<Longrightarrow> heap_on key (sift_down (\<lambda>a b. key a < key b) xs n i) n"
proof (induction "\<lambda>a b. key a < key b" xs n i rule: sift_down.induct)
  case (1 xs n i)
  define c where "c = (if 2 * i + 2 < n \<and> key (xs ! (2 * i + 1)) < key (xs ! (2 * i + 2)) then 2 * i + 2 else 2 * i + 1)"
  note step = sift_down_step [of c i n "\<lambda>a b. key a < key b" xs, OF c_def]
  from "1.prems" have len: "n \<le> length xs"
    and c1: "\<And>j. j < n \<Longrightarrow> 0 < j \<Longrightarrow> (j - 1) div 2 \<noteq> i \<Longrightarrow>
                 key (xs ! j) \<le> key (xs ! ((j - 1) div 2))"
    and c2: "\<And>j. j < n \<Longrightarrow> 0 < j \<Longrightarrow> (j - 1) div 2 = i \<Longrightarrow> 0 < i \<Longrightarrow>
                 key (xs ! j) \<le> key (xs ! ((i - 1) div 2))"
    by (auto simp: down_ok_def)
  have children: "(j - 1) div 2 = i \<longleftrightarrow> j = 2 * i + 1 \<or> j = 2 * i + 2" if "0 < j" for j
    using that by arith
  show ?case
  proof (cases "2 * i + 1 < n")
    case False
    have "heap_on key xs n"
      unfolding heap_on_def
    proof (intro allI impI)
      fix j assume j: "j < n" "0 < j"
      with False children [of j] have "(j - 1) div 2 \<noteq> i" by auto
      then show "key (xs ! j) \<le> key (xs ! ((j - 1) div 2))"
        using c1 j by simp
    qed
    then show ?thesis
      using False by (simp add: step)
  next
    case l: True
    then have cn: "c < n" by (simp add: c_def)
    have ci: "(c - 1) div 2 = i" by (simp add: c_def)
    have ic: "i < c" by (simp add: c_def)
    have big: "key (xs ! j) \<le> key (xs ! c)" if "j < n" "0 < j" "(j - 1) div 2 = i" for j
      using that children [of j] by (auto simp: c_def split: if_splits)
    show ?thesis
    proof (cases "key (xs ! i) < key (xs ! c)")
      case False
      have "heap_on key xs n"
        unfolding heap_on_def
      proof (intro allI impI)
        fix j assume j: "j < n" "0 < j"
        show "key (xs ! j) \<le> key (xs ! ((j - 1) div 2))"
        proof (cases "(j - 1) div 2 = i")
          case True
          then show ?thesis using big [of j] j False by simp
        next
          case False
          then show ?thesis using c1 j by simp
        qed
      qed
      then show ?thesis
        using False l by (simp add: step)
    next
      case True
      let ?ys = "swap_at xs i c"
      have ys: "\<And>k. k < n \<Longrightarrow>
                  ?ys ! k = (if k = c then xs ! i else if k = i then xs ! c else xs ! k)"
        using len cn ic by (subst nth_swap_at) auto
      have "down_ok key ?ys n c"
        unfolding down_ok_def
      proof (intro conjI allI impI)
        show "n \<le> length ?ys" using len by simp
      next
        fix j assume j: "j < n" "0 < j" "(j - 1) div 2 \<noteq> c"
        let ?q = "(j - 1) div 2"
        have q: "?q < j" using parent_less j by simp
        then have qn: "?q < n" using j by simp
        have qc: "?q \<noteq> c" using j by simp
        show "key (?ys ! j) \<le> key (?ys ! ?q)"
        proof (cases "j = c")
          case jc: True
          then have "?q = i" using ci by simp
          then show ?thesis using ys [of c] ys [of i] cn ic jc True by simp
        next
          case jc: False
          show ?thesis
          proof (cases "j = i")
            case ji: True
            then have i0: "0 < i" using j by simp
            have "?q \<noteq> i" using q ji by simp
            then have "?ys ! ?q = xs ! ?q" using ys [of ?q] qn qc by simp
            moreover have "?ys ! j = xs ! c" using ys [of j] j ji jc by simp
            moreover have "key (xs ! c) \<le> key (xs ! ((i - 1) div 2))"
              using c2 [of c] cn ci i0 ic by simp
            ultimately show ?thesis using ji by simp
          next
            case ji: False
            have yj: "?ys ! j = xs ! j" using ys [of j] j ji jc by simp
            show ?thesis
            proof (cases "?q = i")
              case True
              then have "?ys ! ?q = xs ! c" using ys [of ?q] qn qc by simp
              then show ?thesis using yj big [of j] j True by simp
            next
              case False
              then have "?ys ! ?q = xs ! ?q" using ys [of ?q] qn qc by simp
              then show ?thesis using yj c1 [of j] j False by simp
            qed
          qed
        qed
      next
        fix j assume j: "j < n" "0 < j" "(j - 1) div 2 = c" "0 < c"
        have jc: "c < j" using parent_less [OF j(2)] j(3) by simp
        then have "j \<noteq> c" "j \<noteq> i" using ic by auto
        then have "?ys ! j = xs ! j" using ys [of j] j by simp
        moreover have "?ys ! ((c - 1) div 2) = xs ! c"
          using ys [of i] ci cn ic by simp
        moreover have "key (xs ! j) \<le> key (xs ! c)"
          using c1 [of j] j ic by simp
        ultimately show "key (?ys ! j) \<le> key (?ys ! ((c - 1) div 2))" by simp
      qed
      then have "heap_on key (sift_down (\<lambda>a b. key a < key b) ?ys n c) n"
        using "1.hyps" [OF refl refl l c_def True] by simp
      then show ?thesis
        using True l by (simp add: step)
    qed
  qed
qed

lemma length_sift_up [simp]: "length (sift_up cmp xs i) = length xs"
proof (induction cmp xs i rule: sift_up.induct)
  case (1 cmp xs i)
  then show ?case
    by (subst sift_up.simps) (simp add: Let_def)
qed

lemma mset_sift_up: "i < length xs \<Longrightarrow> mset (sift_up cmp xs i) = mset xs"
proof (induction cmp xs i rule: sift_up.induct)
  case (1 cmp xs i)
  show ?case
  proof (cases "i = 0 \<or> \<not> cmp (xs ! ((i - 1) div 2)) (xs ! i)")
    case True
    then show ?thesis
      by (subst sift_up.simps) (auto simp: Let_def)
  next
    case False
    then have i: "0 < i" and c: "cmp (xs ! ((i - 1) div 2)) (xs ! i)"
      by auto
    have p: "(i - 1) div 2 < length xs"
      using parent_less [OF i] "1.prems" by simp
    have "mset (sift_up cmp (swap_at xs ((i - 1) div 2) i) ((i - 1) div 2)) =
          mset (swap_at xs ((i - 1) div 2) i)"
      using "1.IH" [OF _ refl c] i p by simp
    then show ?thesis
      using i c p "1.prems" by (subst sift_up.simps) (simp add: Let_def mset_swap_at)
  qed
qed

lemma sift_up_heap:
  "up_ok key xs i \<Longrightarrow> heap_on key (sift_up (\<lambda>a b. key a < key b) xs i) (length xs)"
proof (induction "\<lambda>a b. key a < key b" xs i rule: sift_up.induct)
  case (1 xs i)
  let ?p = "(i - 1) div 2"
  from "1.prems" have len: "i < length xs"
    and c1: "\<And>j. j < length xs \<Longrightarrow> 0 < j \<Longrightarrow> j \<noteq> i \<Longrightarrow> key (xs ! j) \<le> key (xs ! ((j - 1) div 2))"
    and c2: "\<And>j. j < length xs \<Longrightarrow> 0 < j \<Longrightarrow> (j - 1) div 2 = i \<Longrightarrow> 0 < i \<Longrightarrow>
                 key (xs ! j) \<le> key (xs ! ?p)"
    by (auto simp: up_ok_def)
  show ?case
  proof (cases "i = 0")
    case True
    then show ?thesis
      using c1 by (subst sift_up.simps) (auto simp: heap_on_def)
  next
    case False
    then have i: "0 < i" by simp
    have p: "?p < i" using parent_less [OF i] .
    show ?thesis
    proof (cases "key (xs ! ?p) < key (xs ! i)")
      case False
      have "heap_on key xs (length xs)"
        unfolding heap_on_def
      proof (intro allI impI)
        fix j assume "j < length xs" "0 < j"
        then show "key (xs ! j) \<le> key (xs ! ((j - 1) div 2))"
          using c1 [of j] False by (cases "j = i") auto
      qed
      then show ?thesis
        using False i by (subst sift_up.simps) (simp add: Let_def)
    next
      case True
      let ?ys = "swap_at xs ?p i"
      have ys: "\<And>k. k < length xs \<Longrightarrow>
                  ?ys ! k = (if k = i then xs ! ?p else if k = ?p then xs ! i else xs ! k)"
        using len p by (simp add: nth_swap_at)
      have "up_ok key ?ys ?p"
        unfolding up_ok_def
      proof (intro conjI allI impI)
        show "?p < length ?ys" using p len by simp
      next
        fix j assume j: "j < length ?ys" "0 < j" "j \<noteq> ?p"
        let ?q = "(j - 1) div 2"
        have q: "?q < j" using parent_less j by simp
        then have ql: "?q < length xs" using j by simp
        show "key (?ys ! j) \<le> key (?ys ! ?q)"
        proof (cases "j = i")
          case True
          then show ?thesis using ys [of i] ys [of ?p] len p \<open>key (xs ! ?p) < key (xs ! i)\<close>
            by simp
        next
          case ji: False
          have yj: "?ys ! j = xs ! j" using ys [of j] j ji by simp
          consider "?q = i" | "?q = ?p" | "?q \<noteq> i" "?q \<noteq> ?p" by blast
          then show ?thesis
          proof cases
            case 1
            then have "?ys ! ?q = xs ! ?p" using ys [of ?q] ql by simp
            then show ?thesis using yj c2 [of j] j 1 i by simp
          next
            case 2
            then have "?ys ! ?q = xs ! i" using ys [of ?q] ql p by simp
            moreover have "key (xs ! j) \<le> key (xs ! ?p)" using c1 [of j] j ji 2 by simp
            ultimately show ?thesis using yj True by simp
          next
            case 3
            then have "?ys ! ?q = xs ! ?q" using ys [of ?q] ql by simp
            then show ?thesis using yj c1 [of j] j ji by simp
          qed
        qed
      next
        fix j assume j: "j < length ?ys" "0 < j" "(j - 1) div 2 = ?p" "0 < ?p"
        let ?g = "(?p - 1) div 2"
        have g: "?g < ?p" using parent_less j by simp
        have yg: "?ys ! ?g = xs ! ?g" using ys [of ?g] g p len by simp
        have pg: "key (xs ! ?p) \<le> key (xs ! ?g)" using c1 [of ?p] j p len by simp
        have jp: "j \<noteq> ?p" using parent_less [OF j(2)] j(3) by simp
        show "key (?ys ! j) \<le> key (?ys ! ?g)"
        proof (cases "j = i")
          case True
          then show ?thesis using ys [of i] len yg pg by simp
        next
          case False
          then have "?ys ! j = xs ! j" using ys [of j] j jp by simp
          moreover have "key (xs ! j) \<le> key (xs ! ?p)" using c1 [of j] j False by simp
          ultimately show ?thesis using yg pg by simp
        qed
      qed
      then have "heap_on key (sift_up (\<lambda>a b. key a < key b) ?ys ?p) (length ?ys)"
        using "1.hyps" [OF False refl True] by simp
      then show ?thesis
        using True i by (subst sift_up.simps) (simp add: Let_def)
    qed
  qed
qed

lemma is_heap_key: "is_heap (\<lambda>a b. key a < key b) xs \<longleftrightarrow> heap_on key xs (length xs)"
  by (auto simp: is_heap_def heap_on_def not_less)

lemma AlertComparator_key: "AlertComparator = (\<lambda>a b. priority a < priority b)"
  by (intro ext) (simp add: AlertComparator_def)

lemma heap_on_top:
  "heap_on key xs (length xs) \<Longrightarrow> i < length xs \<Longrightarrow> key (xs ! i) \<le> key (xs ! 0)"
proof (induction i rule: less_induct)
  case (less i)
  show ?case
  proof (cases "i = 0")
    case True
    then show ?thesis by simp
  next
    case False
    then have i: "0 < i" by simp
    have p: "(i - 1) div 2 < i" using parent_less [OF i] .
    have "key (xs ! i) \<le> key (xs ! ((i - 1) div 2))"
      using less.prems i by (simp add: heap_on_def)
    also have "\<dots> \<le> key (xs ! 0)"
      using less.IH [OF p] less.prems p by simp
    finally show ?thesis .
  qed
qed

lemma heap_on_hd_max:
  assumes "heap_on key xs (length xs)" and "x \<in> set xs"
  shows "key x \<le> key (hd xs)"
proof -
  from assms(2) obtain i where "i < length xs" "xs ! i = x"
    by (auto simp: in_set_conv_nth)
  moreover from assms(2) have "hd xs = xs ! 0"
    by (cases xs) auto
  ultimately show ?thesis
    using heap_on_top [OF assms(1), of i] by simp
qed

lemma length_pq_push [simp]: "length (pq_push cmp x c) = Suc (length c)"
  by (simp add: pq_push_def push_heap_def)

lemma mset_pq_push: "mset (pq_push cmp x c) = add_mset x (mset c)"
  by (simp add: pq_push_def push_heap_def mset_sift_up)

lemma pq_push_heap:
  assumes "heap_on key c (length c)"
  shows "heap_on key (pq_push (\<lambda>a b. key a < key b) x c) (Suc (length c))"
proof -
  have "up_ok key (c @ [x]) (length c)"
    unfolding up_ok_def
  proof (intro conjI allI impI)
    show "length c < length (c @ [x])" by simp
  next
    fix j assume j: "j < length (c @ [x])" "0 < j" "j \<noteq> length c"
    then have jl: "j < length c" by simp
    then have "(j - 1) div 2 < length c" using parent_less [OF j(2)] by simp
    then show "key ((c @ [x]) ! j) \<le> key ((c @ [x]) ! ((j - 1) div 2))"
      using assms jl j(2) by (simp add: nth_append heap_on_def)
  next
    fix j assume j: "j < length (c @ [x])" "0 < j" "(j - 1) div 2 = length c"
    then have False using parent_less [OF j(2)] by simp
    then show "key ((c @ [x]) ! j) \<le> key ((c @ [x]) ! ((length c - 1) div 2))" ..
  qed
  from sift_up_heap [OF this] show ?thesis
    by (simp add: pq_push_def push_heap_def)
qed

lemma pq_pop_props:
  assumes heap: "heap_on key c (length c)" and ne: "c \<noteq> []"
  shows "heap_on key (pq_pop (\<lambda>a b. key a < key b) c) (length c - 1)"
    and "length (pq_pop (\<lambda>a b. key a < key b) c) = length c - 1"
    and "mset (pq_pop (\<lambda>a b. key a < key b) c) = mset c - {#hd c#}"
proof -
  let ?cmp = "\<lambda>a b. key a < key b"
  let ?n = "length c"
  show len: "length (pq_pop ?cmp c) = ?n - 1"
    by (simp add: pq_pop_def pop_heap_def)
  show "heap_on key (pq_pop ?cmp c) (?n - 1)"
  proof (cases "?n \<le> 1")
    case True
    then show ?thesis by (simp add: heap_on_def)
  next
    case False
    let ?ys = "swap_at c 0 (?n - 1)"
    let ?zs = "sift_down ?cmp ?ys (?n - 1) 0"
    from ne have n2: "0 < ?n" "?n - 1 < ?n" by simp_all
    note sw = nth_swap_at [OF n2]
    have "down_ok key ?ys (?n - 1) 0"
      unfolding down_ok_def
    proof (intro conjI allI impI)
      show "?n - 1 \<le> length ?ys" by simp
    next
      fix j assume j: "j < ?n - 1" "0 < j" "(j - 1) div 2 \<noteq> 0"
      have q: "(j - 1) div 2 < j" using parent_less [OF j(2)] .
      have "?ys ! j = c ! j" using sw [of j] j by simp
      moreover have "?ys ! ((j - 1) div 2) = c ! ((j - 1) div 2)"
        using sw [of "(j - 1) div 2"] j q by simp
      moreover have "key (c ! j) \<le> key (c ! ((j - 1) div 2))"
        using heap j by (simp add: heap_on_def)
      ultimately show "key (?ys ! j) \<le> key (?ys ! ((j - 1) div 2))" by simp
    next
      fix j assume "0 < (0::nat)"
      then show "key (?ys ! j) \<le> key (?ys ! ((0 - 1) div 2))" by simp
    qed
    then have hz: "heap_on key ?zs (?n - 1)"
      by (rule sift_down_heap)
    have "pq_pop ?cmp c = butlast ?zs"
      using False by (simp add: pq_pop_def pop_heap_def)
    moreover have "heap_on key (butlast ?zs) (?n - 1)"
      unfolding heap_on_def
    proof (intro allI impI)
      fix j assume j: "j < ?n - 1" "0 < j"
      have q: "(j - 1) div 2 < j" using parent_less [OF j(2)] .
      then show "key (butlast ?zs ! j) \<le> key (butlast ?zs ! ((j - 1) div 2))"
        using hz j by (simp add: nth_butlast heap_on_def)
    qed
    ultimately show ?thesis by simp
  qed
  show "mset (pq_pop ?cmp c) = mset c - {#hd c#}"
  proof (cases "?n \<le> 1")
    case True
    with ne obtain x where "c = [x]" by (cases c) auto
    then show ?thesis by (simp add: pq_pop_def pop_heap_def)
  next
    case False
    let ?ys = "swap_at c 0 (?n - 1)"
    let ?zs = "sift_down ?cmp ?ys (?n - 1) 0"
    have pz: "pq_pop ?cmp c = butlast ?zs"
      using False by (simp add: pq_pop_def pop_heap_def)
    have "length ?zs = ?n" by simp
    with ne have zne: "?zs \<noteq> []" by (metis length_0_conv)
    have "last ?zs = ?zs ! (?n - 1)"
      using zne by (simp add: last_conv_nth)
    also have "\<dots> = ?ys ! (?n - 1)"
      by (rule sift_down_outside) simp_all
    also have "\<dots> = c ! 0"
      using nth_swap_at [of 0 c "?n - 1" "?n - 1"] ne by simp
    also have "\<dots> = hd c" using ne by (simp add: hd_conv_nth)
    finally have lz: "last ?zs = hd c" .
    have "mset ?ys = mset c"
      using ne by (intro mset_swap_at) simp_all
    then have "mset ?zs = mset c"
      by (simp add: mset_sift_down)
    moreover have "mset (butlast ?zs @ [last ?zs]) = add_mset (last ?zs) (mset (butlast ?zs))"
      by simp
    then have "mset ?zs = add_mset (last ?zs) (mset (butlast ?zs))"
      by (simp only: append_butlast_last_id [OF zne])
    ultimately show ?thesis using pz lz by simp
  qed
qed

lemma alertQueue_addSensorReading:
  "alertQueue (fst (addSensorReading r s)) = alertQueue (fst s)"
  by (cases s) (simp add: addSensorReading_def)

lemma alertQueue_addAlert:
  "alertQueue (fst (addAlert a s)) = pq_push AlertComparator a (alertQueue (fst s))"
  by (cases s) (simp add: addAlert_def)

lemma alertQueue_processNextAlert:
  "alertQueue (fst (processNextAlert s)) =
     (if alertQueue (fst s) = [] then [] else pq_pop AlertComparator (alertQueue (fst s)))"
  by (cases s) (simp add: processNextAlert_def pq_empty_def Let_def)

lemma snd_processNextAlert:
  "alertQueue (fst s) \<noteq> [] \<Longrightarrow>
   snd (processNextAlert s) =
     snd s @ ''Processing Priority '' @ show_int (priority (hd (alertQueue (fst s)))) @ '': ''
       @ message (hd (alertQueue (fst s))) @ '' ('' @ alertType (hd (alertQueue (fst s))) @ '')'' @ endl"
  by (cases s) (simp add: processNextAlert_def pq_empty_def pq_top_def Let_def)

lemma alertQueue_heap_run:
  "heap_on priority (alertQueue (fst (fold do_call cs (new_SensorProcessor, out))))
     (length (alertQueue (fst (fold do_call cs (new_SensorProcessor, out)))))"
proof (induction cs rule: rev_induct)
  case Nil
  show ?case by (simp add: new_SensorProcessor_def heap_on_def)
next
  case (snoc c cs)
  let ?s = "fold do_call cs (new_SensorProcessor, out)"
  show ?case
  proof (cases c)
    case (AddSensorReading r)
    with snoc.IH show ?thesis by (simp add: alertQueue_addSensorReading)
  next
    case (AddAlert a)
    with pq_push_heap [OF snoc.IH, of a] show ?thesis
      by (simp add: alertQueue_addAlert AlertComparator_key)
  next
    case ProcessNextAlert
    show ?thesis
    proof (cases "alertQueue (fst ?s) = []")
      case True
      with ProcessNextAlert show ?thesis
        by (simp add: alertQueue_processNextAlert heap_on_def)
    next
      case False
      from pq_pop_props(1,2) [OF snoc.IH False] ProcessNextAlert False show ?thesis
        by (simp add: alertQueue_processNextAlert AlertComparator_key)
    qed
  qed
qed

lemma alertQueue_is_heap_run:
  "is_heap AlertComparator (alertQueue (fst (fold do_call cs (new_SensorProcessor, out))))"
  by (simp add: AlertComparator_key is_heap_key alertQueue_heap_run)

subsection \<open>Alerts leave the queue by descending priority\<close>

text \<open>
  C1. In every state reached from a fresh processor by any sequence of calls, if the alert
  queue is not empty then \<open>processNextAlert\<close> reports (prints the line of) an alert of the
  queue whose priority is at least the priority of every queued alert, and removes one copy
  of that alert and nothing else from the queue; \<open>addAlert\<close> adds its alert to the queued
  ones. In particular, on a processor whose queue is empty (as it is when \<open>runTests\<close> gets
  there), after the four \<open>addAlert\<close> calls of \<open>runTests\<close> (priorities 3, 9, 1, 7) four calls
  of \<open>processNextAlert\<close> print the alerts of priority 9, 7, 3 and 1 in this order and leave
  the processor as it was, its queue empty.
\<close>

theorem processNextAlert_highest_priority_first:
  "(alertQueue (fst (fold do_call cs (new_SensorProcessor, out))) \<noteq> [] \<longrightarrow>
      (\<exists>a \<in> set (alertQueue (fst (fold do_call cs (new_SensorProcessor, out)))).
         (\<forall>b \<in> set (alertQueue (fst (fold do_call cs (new_SensorProcessor, out)))).
            priority b \<le> priority a) \<and>
         snd (processNextAlert (fold do_call cs (new_SensorProcessor, out))) =
           snd (fold do_call cs (new_SensorProcessor, out)) @ ''Processing Priority ''
             @ show_int (priority a) @ '': '' @ message a @ '' ('' @ alertType a @ '')'' @ endl \<and>
         mset (alertQueue (fst (processNextAlert (fold do_call cs (new_SensorProcessor, out))))) =
           mset (alertQueue (fst (fold do_call cs (new_SensorProcessor, out)))) - {#a#})) \<and>
   mset (alertQueue (fst (addAlert x (fold do_call cs (new_SensorProcessor, out))))) =
     add_mset x (mset (alertQueue (fst (fold do_call cs (new_SensorProcessor, out))))) \<and>
   (alertQueue p = [] \<longrightarrow>
   processNextAlert (processNextAlert (processNextAlert (processNextAlert
     (addAlert \<lparr>priority = 7, message = ''Network connectivity issue'', alertType = ''ERROR''\<rparr>
     (addAlert \<lparr>priority = 1, message = ''Low battery detected'', alertType = ''INFO''\<rparr>
     (addAlert \<lparr>priority = 9, message = ''Critical system failure'', alertType = ''CRITICAL''\<rparr>
     (addAlert \<lparr>priority = 3, message = ''Temperature threshold exceeded'', alertType = ''WARNING''\<rparr>
     (p, out'))))))))
   = (p,
      out' @ ''Added alert: Priority 3 - Temperature threshold exceeded'' @ endl
           @ ''Added alert: Priority 9 - Critical system failure'' @ endl
           @ ''Added alert: Priority 1 - Low battery detected'' @ endl
           @ ''Added alert: Priority 7 - Network connectivity issue'' @ endl
           @ ''Processing Priority 9: Critical system failure (CRITICAL)'' @ endl
           @ ''Processing Priority 7: Network connectivity issue (ERROR)'' @ endl
           @ ''Processing Priority 3: Temperature threshold exceeded (WARNING)'' @ endl
           @ ''Processing Priority 1: Low battery detected (INFO)'' @ endl))"
proof (intro conjI impI)
  let ?s = "fold do_call cs (new_SensorProcessor, out)"
  let ?q = "alertQueue (fst ?s)"
  assume ne: "?q \<noteq> []"
  note heap = alertQueue_heap_run [of cs out]
  show "\<exists>a \<in> set ?q. (\<forall>b \<in> set ?q. priority b \<le> priority a) \<and>
         snd (processNextAlert ?s) =
           snd ?s @ ''Processing Priority ''
             @ show_int (priority a) @ '': '' @ message a @ '' ('' @ alertType a @ '')'' @ endl \<and>
         mset (alertQueue (fst (processNextAlert ?s))) = mset ?q - {#a#}"
  proof (intro bexI [of _ "hd ?q"] conjI ballI)
    show "hd ?q \<in> set ?q" using ne by simp
  next
    fix b assume "b \<in> set ?q"
    then show "priority b \<le> priority (hd ?q)"
      by (rule heap_on_hd_max [OF heap])
  next
    show "snd (processNextAlert ?s) =
           snd ?s @ ''Processing Priority '' @ show_int (priority (hd ?q)) @ '': ''
             @ message (hd ?q) @ '' ('' @ alertType (hd ?q) @ '')'' @ endl"
      using ne by (rule snd_processNextAlert)
  next
    show "mset (alertQueue (fst (processNextAlert ?s))) = mset ?q - {#hd ?q#}"
      using pq_pop_props(3) [OF heap ne] ne
      by (simp add: alertQueue_processNextAlert AlertComparator_key)
  qed
next
  show "mset (alertQueue (fst (addAlert x (fold do_call cs (new_SensorProcessor, out))))) =
     add_mset x (mset (alertQueue (fst (fold do_call cs (new_SensorProcessor, out)))))"
    by (simp add: alertQueue_addAlert mset_pq_push)
next
  assume "alertQueue p = []"
  then show "processNextAlert (processNextAlert (processNextAlert (processNextAlert
     (addAlert \<lparr>priority = 7, message = ''Network connectivity issue'', alertType = ''ERROR''\<rparr>
     (addAlert \<lparr>priority = 1, message = ''Low battery detected'', alertType = ''INFO''\<rparr>
     (addAlert \<lparr>priority = 9, message = ''Critical system failure'', alertType = ''CRITICAL''\<rparr>
     (addAlert \<lparr>priority = 3, message = ''Temperature threshold exceeded'', alertType = ''WARNING''\<rparr>
     (p, out'))))))))
   = (p,
      out' @ ''Added alert: Priority 3 - Temperature threshold exceeded'' @ endl
           @ ''Added alert: Priority 9 - Critical system failure'' @ endl
           @ ''Added alert: Priority 1 - Low battery detected'' @ endl
           @ ''Added alert: Priority 7 - Network connectivity issue'' @ endl
           @ ''Processing Priority 9: Critical system failure (CRITICAL)'' @ endl
           @ ''Processing Priority 7: Network connectivity issue (ERROR)'' @ endl
           @ ''Processing Priority 3: Temperature threshold exceeded (WARNING)'' @ endl
           @ ''Processing Priority 1: Low battery detected (INFO)'' @ endl)"
    by (simp add: sensor_run_defs Let_def cong: let_weak_cong)
qed

text \<open>
  The theorem at the run that adds an alert of priority 3 and then one of priority 9: the
  queue is not empty, the alert reported is the one of priority 9 and the alert of
  priority 3 stays.
\<close>

theorem processNextAlert_highest_priority_first_witness:
  "snd (processNextAlert (fold do_call
      [AddAlert \<lparr>priority = 3, message = ''low'', alertType = ''WARNING''\<rparr>,
       AddAlert \<lparr>priority = 9, message = ''high'', alertType = ''CRITICAL''\<rparr>]
      (new_SensorProcessor :: rat SensorProcessor, ''''))) =
     ''Added alert: Priority 3 - low'' @ [CHR 0x0A] @ ''Added alert: Priority 9 - high'' @ [CHR 0x0A]
     @ ''Processing Priority 9: high (CRITICAL)'' @ [CHR 0x0A] \<and>
   mset (alertQueue (fst (processNextAlert (fold do_call
      [AddAlert \<lparr>priority = 3, message = ''low'', alertType = ''WARNING''\<rparr>,
       AddAlert \<lparr>priority = 9, message = ''high'', alertType = ''CRITICAL''\<rparr>]
      (new_SensorProcessor :: rat SensorProcessor, ''''))))) =
     {#\<lparr>priority = 3, message = ''low'', alertType = ''WARNING''\<rparr>#}"
proof -
  let ?a3 = "\<lparr>priority = 3, message = ''low'', alertType = ''WARNING''\<rparr>"
  let ?a9 = "\<lparr>priority = 9, message = ''high'', alertType = ''CRITICAL''\<rparr>"
  let ?s = "fold do_call [AddAlert ?a3, AddAlert ?a9] (new_SensorProcessor :: rat SensorProcessor, '''')"
  have s: "?s = (\<lparr>sensorData = Map.empty, locationIndex = Map.empty, alertQueue = [?a9, ?a3]\<rparr>,
      ''Added alert: Priority 3 - low'' @ [CHR 0x0A] @ ''Added alert: Priority 9 - high'' @ [CHR 0x0A])"
    by (simp add: sensor_run_defs Let_def)
  then have q: "alertQueue (fst ?s) = [?a9, ?a3]" by simp
  have ne: "alertQueue (fst ?s) \<noteq> []" using q by simp
  note t = processNextAlert_highest_priority_first
             [of "[AddAlert ?a3, AddAlert ?a9]" "''''", THEN conjunct1, rule_format, OF ne]
  then obtain a where a: "a \<in> set (alertQueue (fst ?s))"
      "\<forall>b \<in> set (alertQueue (fst ?s)). priority b \<le> priority a"
      "snd (processNextAlert ?s) = snd ?s @ ''Processing Priority ''
             @ show_int (priority a) @ '': '' @ message a @ '' ('' @ alertType a @ '')'' @ endl"
      "mset (alertQueue (fst (processNextAlert ?s))) = mset (alertQueue (fst ?s)) - {#a#}"
    by (elim bexE conjE)
  from a(1,2) have "a = ?a9" unfolding q by auto
  with a(3,4) show ?thesis
    unfolding q s by (simp add: show_int_def show_nat.simps endl_def)
qed

subsection \<open>The output of the program\<close>

text \<open>
  C8 does not hold of the file as shipped, by a defect of the file. The claim is about
  executing the program, and the file as shipped is not a program: line 159 is bare
  text, line 192 has lost the comment marker of the starter's lines 26 and 27 (so the
  default constructor that line 230 needs is not declared), and the structs, the class and
  \<^verbatim>\<open>main\<close> are each defined twice. Nothing can be executed, so nothing is written.

  The bodies of the member functions are intact. The lemma below records that the slip is
  in the text around them: \<open>runTests\<close> as written, called on a fresh processor, would write
  lines 4 to 40 of the expected text (source lines 416 to 452), provided the stream writes
  the double of the literal 45.2 as "45.2".
\<close>

lemma runTests_writes_expected_lines:
  "d_show ops (d_lit ops (452 / 10)) = ''45.2'' \<Longrightarrow>
   snd (runTests ops (new_SensorProcessor, cout)) = cout @ unlines (drop 3 EXPECTED_COMPLETE_OUTPUT)"
  by (simp add: runTests_def sensor_run_defs Let_def unlines_def
        EXPECTED_COMPLETE_OUTPUT_def check_mark_def cross_mark_def cong: let_weak_cong)

text \<open>The lemma with exact rational arithmetic, whose printer writes 45.2 as required.\<close>

lemma runTests_writes_expected_lines_exact:
  "snd (runTests exact_ops (new_SensorProcessor, [])) = unlines (drop 3 EXPECTED_COMPLETE_OUTPUT)"
proof -
  have h: "d_show exact_ops (d_lit exact_ops (452 / 10)) = ''45.2''"
    by code_simp
  from runTests_writes_expected_lines [OF h, of "[]"] show ?thesis
    by simp
qed

section \<open>Properties of the transaction pipeline\<close>

lemma copy_if_filter: "copy_if xs v pred = v @ filter pred xs"
  by (induction xs arbitrary: v) auto

lemma count_if_from_filter: "count_if_from ret xs pred = ret + length (filter pred xs)"
  by (induction xs arbitrary: ret) auto

lemma count_if_filter: "count_if xs pred = length (filter pred xs)"
  by (simp add: count_if_def count_if_from_filter)

lemma collect_view_filter:
  "collect_view v (find_if ys (pred_of v)) out = out @ filter (pred_of v) ys"
proof (induction ys arbitrary: out)
  case Nil
  show ?case by (simp add: collect_view.simps)
next
  case (Cons x xs)
  show ?case
  proof (cases "pred_of v x")
    case True
    then have "collect_view v (find_if (x # xs) (pred_of v)) out =
               collect_view v (find_if xs (pred_of v)) (out @ [x])"
      by (subst collect_view.simps) (simp add: filter_next_def)
    with True Cons.IH [of "out @ [x]"] show ?thesis by simp
  next
    case False
    with Cons.IH [of out] show ?thesis by simp
  qed
qed

lemma ranges_to_vector_filter: "ranges_to_vector (views_filter r pred) = filter pred r"
  using collect_view_filter [of "views_filter r pred" r "[]"]
  by (simp add: ranges_to_vector_def filter_begin_def views_filter_def)

lemma IsValidTransaction_range_eq: "IsValidTransaction_range ops = IsValidTransaction ops"
  by (intro ext) (simp add: IsValidTransaction_range_def IsValidTransaction_def
        hasValidAmount_def hasValidCustomer_def)

lemma filterValidTransactions_eq:
  "filterValidTransactions ops (pl, cout) =
     (pl\<lparr>validTransactions := filter (IsValidTransaction ops) (rawTransactions pl)\<rparr>,
      cout @ ''Original transactions: '' @ show_nat (length (rawTransactions pl)) @ endl
           @ ''Valid transactions: ''
           @ show_nat (length (filter (IsValidTransaction ops) (rawTransactions pl))) @ endl
           @ ''Invalid transactions: ''
           @ show_nat (length (filter (\<lambda>t. \<not> IsValidTransaction ops t) (rawTransactions pl)))
           @ endl)"
  by (simp add: filterValidTransactions_def copy_if_filter count_if_filter Let_def)

lemma filterValidTransactions_range_eq:
  "filterValidTransactions_range ops (pl, cout) =
     (pl\<lparr>validTransactions := filter (IsValidTransaction ops) (rawTransactions pl)\<rparr>,
      cout @ ''Original transactions: '' @ show_nat (length (rawTransactions pl)) @ endl
           @ ''Valid transactions: ''
           @ show_nat (length (filter (IsValidTransaction ops) (rawTransactions pl))) @ endl
           @ ''Invalid transactions: ''
           @ show_nat (length (filter (\<lambda>t. \<not> IsValidTransaction ops t) (rawTransactions pl)))
           @ endl)"
  by (simp add: filterValidTransactions_range_def ranges_to_vector_filter count_if_filter Let_def
        IsValidTransaction_range_eq)

subsection \<open>Validity and the filter\<close>

text \<open>
  C5. The validity predicate of the pipeline, \<open>IsValidTransaction\<close>, is
  \<open>hasValidAmount t \<and> hasValidCustomer t\<close> in the traditional file, and in both files it
  holds exactly when \<^verbatim>\<open>t.amount > 0\<close> holds and the customer identifier is not empty.
  \<open>filterValidTransactions\<close> replaces \<open>validTransactions\<close> by the raw transactions that satisfy
  the predicate, in their original order, leaves the raw transactions as they are, and the
  count it prints after "Invalid transactions: " is the number of raw transactions that fail
  the predicate.
\<close>

theorem valid_transactions_filtered:
  "(IsValidTransaction ops t \<longleftrightarrow> hasValidAmount ops t \<and> hasValidCustomer t) \<and>
   (IsValidTransaction ops t \<longleftrightarrow> d_greater ops (amount t) (d_lit ops 0) \<and> customerId t \<noteq> []) \<and>
   (IsValidTransaction_range ops t \<longleftrightarrow> d_greater ops (amount t) (d_lit ops 0) \<and> customerId t \<noteq> []) \<and>
   validTransactions (fst (filterValidTransactions ops (pl, cout))) =
     filter (IsValidTransaction ops) (rawTransactions pl) \<and>
   rawTransactions (fst (filterValidTransactions ops (pl, cout))) = rawTransactions pl \<and>
   snd (filterValidTransactions ops (pl, cout)) =
     cout @ ''Original transactions: '' @ show_nat (length (rawTransactions pl)) @ endl
          @ ''Valid transactions: ''
          @ show_nat (length (filter (IsValidTransaction ops) (rawTransactions pl))) @ endl
          @ ''Invalid transactions: ''
          @ show_nat (length (filter (\<lambda>t. \<not> IsValidTransaction ops t) (rawTransactions pl)))
          @ endl"
  by (simp add: filterValidTransactions_eq IsValidTransaction_def IsValidTransaction_range_def
        hasValidAmount_def hasValidCustomer_def)

text \<open>
  The theorem on five raw transactions, of which the second (amount 0), the third (no
  customer) and the fifth (negative amount) are invalid, starting from a pipeline that
  still holds an old result.
\<close>

theorem valid_transactions_filtered_witness:
  "validTransactions (fst (filterValidTransactions exact_ops
      (\<lparr>rawTransactions =
          [new_Transaction exact_ops 1 ''CUST1'' 250 ''North'',
           new_Transaction exact_ops 2 ''CUST2'' 0 ''South'',
           new_Transaction exact_ops 3 [] 75 ''East'',
           new_Transaction exact_ops 4 ''CUST4'' (1 / 2) ''West'',
           new_Transaction exact_ops 5 ''CUST5'' (- 10) ''North''],
        validTransactions = [new_Transaction exact_ops 9 ''OLD'' 1 ''North'']\<rparr>, ''''))) =
     [new_Transaction exact_ops 1 ''CUST1'' 250 ''North'',
      new_Transaction exact_ops 4 ''CUST4'' (1 / 2) ''West''] \<and>
   snd (filterValidTransactions exact_ops
      (\<lparr>rawTransactions =
          [new_Transaction exact_ops 1 ''CUST1'' 250 ''North'',
           new_Transaction exact_ops 2 ''CUST2'' 0 ''South'',
           new_Transaction exact_ops 3 [] 75 ''East'',
           new_Transaction exact_ops 4 ''CUST4'' (1 / 2) ''West'',
           new_Transaction exact_ops 5 ''CUST5'' (- 10) ''North''],
        validTransactions = [new_Transaction exact_ops 9 ''OLD'' 1 ''North'']\<rparr>, '''')) =
     ''Original transactions: 5'' @ [CHR 0x0A] @ ''Valid transactions: 2'' @ [CHR 0x0A]
       @ ''Invalid transactions: 3'' @ [CHR 0x0A]"
  using valid_transactions_filtered
    [of exact_ops "new_Transaction exact_ops 1 ''CUST1'' 250 ''North''"
        "\<lparr>rawTransactions =
          [new_Transaction exact_ops 1 ''CUST1'' 250 ''North'',
           new_Transaction exact_ops 2 ''CUST2'' 0 ''South'',
           new_Transaction exact_ops 3 [] 75 ''East'',
           new_Transaction exact_ops 4 ''CUST4'' (1 / 2) ''West'',
           new_Transaction exact_ops 5 ''CUST5'' (- 10) ''North''],
        validTransactions = [new_Transaction exact_ops 9 ''OLD'' 1 ''North'']\<rparr>" "''''"]
  by (simp add: IsValidTransaction_def hasValidAmount_def hasValidCustomer_def
        new_Transaction_def exact_ops_def show_nat.simps endl_def)

subsection \<open>Derived values\<close>

text \<open>
  C6. For every transaction \<open>t\<close>, \<open>CalculateDerivedValues\<close> returns a transaction whose
  \<open>taxAmount\<close> is \<^verbatim>\<open>amount * 0.08\<close>, whose \<open>discount\<close> is \<^verbatim>\<open>amount * 0.10\<close> when
  \<^verbatim>\<open>amount > 1000.0\<close> and 0 otherwise, whose \<open>finalTotal\<close> is
  \<^verbatim>\<open>amount + taxAmount - discount\<close> computed from the new tax and discount, and whose
  identifier, customer, amount and region are those of \<open>t\<close>. The products, the sum, the
  difference and the comparison are those of the machine's doubles.
\<close>

theorem derived_values:
  "taxAmount (CalculateDerivedValues ops t) = d_mult ops (amount t) (d_lit ops (8 / 100)) \<and>
   discount (CalculateDerivedValues ops t) =
     (if d_greater ops (amount t) (d_lit ops 1000) then d_mult ops (amount t) (d_lit ops (10 / 100))
      else d_lit ops 0) \<and>
   finalTotal (CalculateDerivedValues ops t) =
     d_minus ops (d_plus ops (amount t) (taxAmount (CalculateDerivedValues ops t)))
       (discount (CalculateDerivedValues ops t)) \<and>
   id' (CalculateDerivedValues ops t) = id' t \<and>
   customerId (CalculateDerivedValues ops t) = customerId t \<and>
   amount (CalculateDerivedValues ops t) = amount t \<and>
   region (CalculateDerivedValues ops t) = region t"
  by (simp add: CalculateDerivedValues_def TAX_RATE_def DISCOUNT_THRESHOLD_def DISCOUNT_RATE_def)

text \<open>
  The theorem in exact arithmetic at an amount of 2000 (tax 160, discount 200, total 1960)
  and at the threshold amount 1000, which earns no discount (tax 80, total 1080).
\<close>

theorem derived_values_witness:
  "CalculateDerivedValues exact_ops (new_Transaction exact_ops 1 ''CUST1'' 2000 ''North'') =
     \<lparr>id' = 1, customerId = ''CUST1'', amount = 2000, region = ''North'',
      taxAmount = 160, discount = 200, finalTotal = 1960\<rparr> \<and>
   CalculateDerivedValues exact_ops (new_Transaction exact_ops 2 ''CUST2'' 1000 ''South'') =
     \<lparr>id' = 2, customerId = ''CUST2'', amount = 1000, region = ''South'',
      taxAmount = 80, discount = 0, finalTotal = 1080\<rparr>"
  using derived_values [of exact_ops "new_Transaction exact_ops 1 ''CUST1'' 2000 ''North''"]
    derived_values [of exact_ops "new_Transaction exact_ops 2 ''CUST2'' 1000 ''South''"]
  by (simp add: new_Transaction_def exact_ops_def Transaction.equality)

subsection \<open>The lazy view and the eager copy agree\<close>

text \<open>
  C7. For every vector of raw transactions, the range-based \<open>filterValidTransactions\<close>
  (a lazy filter view over the raw transactions, walked once by \<^verbatim>\<open>ranges::to\<close>) stores the
  same \<open>validTransactions\<close>, element for element and in the same order, as the
  \<^verbatim>\<open>copy_if\<close>-based one; the two calls even return the same pipeline and print the same
  text.
\<close>

theorem ranges_filter_equals_copy_if:
  "filterValidTransactions_range ops (pl, cout) = filterValidTransactions ops (pl, cout) \<and>
   validTransactions (fst (filterValidTransactions_range ops (pl, cout))) =
     validTransactions (fst (filterValidTransactions ops (pl, cout)))"
  by (simp add: filterValidTransactions_eq filterValidTransactions_range_eq)

text \<open>The theorem on four raw transactions, two of them valid.\<close>

theorem ranges_filter_equals_copy_if_witness:
  "validTransactions (fst (filterValidTransactions_range exact_ops
      (\<lparr>rawTransactions =
          [new_Transaction exact_ops 1 ''CUST1'' 250 ''North'',
           new_Transaction exact_ops 2 ''CUST2'' 0 ''South'',
           new_Transaction exact_ops 3 [] 75 ''East'',
           new_Transaction exact_ops 4 ''CUST4'' (1 / 2) ''West''],
        validTransactions = []\<rparr>, ''''))) =
     [new_Transaction exact_ops 1 ''CUST1'' 250 ''North'',
      new_Transaction exact_ops 4 ''CUST4'' (1 / 2) ''West'']"
proof -
  have "validTransactions (fst (filterValidTransactions exact_ops
      (\<lparr>rawTransactions =
          [new_Transaction exact_ops 1 ''CUST1'' 250 ''North'',
           new_Transaction exact_ops 2 ''CUST2'' 0 ''South'',
           new_Transaction exact_ops 3 [] 75 ''East'',
           new_Transaction exact_ops 4 ''CUST4'' (1 / 2) ''West''],
        validTransactions = []\<rparr>, ''''))) =
     [new_Transaction exact_ops 1 ''CUST1'' 250 ''North'',
      new_Transaction exact_ops 4 ''CUST4'' (1 / 2) ''West'']"
    by (simp add: filterValidTransactions_def IsValidTransaction_def hasValidAmount_def
          hasValidCustomer_def new_Transaction_def exact_ops_def Let_def)
  with ranges_filter_equals_copy_if
    [of exact_ops "\<lparr>rawTransactions =
          [new_Transaction exact_ops 1 ''CUST1'' 250 ''North'',
           new_Transaction exact_ops 2 ''CUST2'' 0 ''South'',
           new_Transaction exact_ops 3 [] 75 ''East'',
           new_Transaction exact_ops 4 ''CUST4'' (1 / 2) ''West''],
        validTransactions = []\<rparr>" "''''"]
  show ?thesis by simp
qed

section \<open>Properties of the chunked transform\<close>

lemma it_at_0 [simp]: "it_at it w i 0 = i"
  by (simp add: it_at_def)













end
